theory Spec2Isabelle
  imports Complex_Main
begin

section \<open>Identifier generators (id-caching.ts, lines 24-63)\<close>

text \<open>
  \<^verbatim>\<open>uuidv4()\<close> is the imported generator of the \<^verbatim>\<open>uuid\<close> package. It is modelled
  as an oracle \<open>U :: nat \<Rightarrow> string\<close> (the value of the k-th draw of the process) together
  with the number of draws made so far, which every call increments. What the generator
  is known to deliver (non-empty strings, distinct values) is never built in: a theorem
  that needs it says so in a hypothesis.
\<close>

definition uuidv4 :: "(nat \<Rightarrow> string) \<Rightarrow> nat \<Rightarrow> string \<times> nat" where
  "uuidv4 U n = (U n, Suc n)"

text \<open>\<^verbatim>\<open>class NormalIdGenerator { generateId() { return uuidv4(); } }\<close>\<close>

definition NormalIdGenerator_generateId :: "(nat \<Rightarrow> string) \<Rightarrow> nat \<Rightarrow> string \<times> nat" where
  "NormalIdGenerator_generateId U n = uuidv4 U n"

text \<open>
  \<^verbatim>\<open>class CachedIdGenerator\<close> has the two fields \<^verbatim>\<open>ID_POOL_SIZE\<close> (initialised to
  1000000 and never assigned again) and \<^verbatim>\<open>idPool: string[]\<close>. The field
  \<open>ID_POOL_SIZE\<close> is kept as a field of the record, so that statements can range over
  every capacity; the value of the source is \<open>ID_POOL_SIZE_source\<close>. A JavaScript number
  used as a loop bound is modelled as an \<open>int\<close>.
\<close>

record CachedIdGenerator =
  ID_POOL_SIZE :: int
  idPool :: "string list"

definition ID_POOL_SIZE_source :: int where
  "ID_POOL_SIZE_source = 1000000"

text \<open>
  \<^verbatim>\<open>Array.prototype.pop\<close>: removes the last element and returns it; on an empty array it
  returns \<^verbatim>\<open>undefined\<close> (here \<open>None\<close>) and leaves the array empty.
\<close>

definition pop :: "'a list \<Rightarrow> 'a option \<times> 'a list" where
  "pop xs = (if xs = [] then (None, []) else (Some (last xs), butlast xs))"

text \<open>
  The test \<^verbatim>\<open>!id\<close> on a value of type \<^verbatim>\<open>string | undefined\<close>: true for
  \<^verbatim>\<open>undefined\<close> and for the empty string, false for every other string.
\<close>

definition falsy :: "string option \<Rightarrow> bool" where
  "falsy v = (case v of None \<Rightarrow> True | Some s \<Rightarrow> s = [])"

text \<open>
  \<^verbatim>\<open>
  private async regenerateIdPool() {
    this.idPool = [];
    for (let i = 0; i < this.ID_POOL_SIZE; i++) {
      const id = uuidv4();
      this.idPool.push(id);
    }
  }
  \<close>
  The body contains no \<^verbatim>\<open>await\<close>. A call of an \<^verbatim>\<open>async\<close> function runs its body
  synchronously up to the first \<^verbatim>\<open>await\<close>, so here the whole loop has run when the call
  expression returns its (already settled) promise, which both callers discard. The
  method is therefore a plain state transformer. The state is the object together with
  the number of identifiers drawn from \<open>uuidv4\<close> so far.
\<close>

function regenerateIdPool_loop ::
  "(nat \<Rightarrow> string) \<Rightarrow> int \<Rightarrow> CachedIdGenerator \<times> nat \<Rightarrow> CachedIdGenerator \<times> nat" where
  "regenerateIdPool_loop U i (g, n) =
     (if i < ID_POOL_SIZE g
      then (case uuidv4 U n of (id', n') \<Rightarrow>
              regenerateIdPool_loop U (i + 1) (g\<lparr>idPool := idPool g @ [id']\<rparr>, n'))
      else (g, n))"
  by pat_completeness auto
termination
  by (relation "measure (\<lambda>(U, i, g, n). nat (ID_POOL_SIZE g - i))") auto

declare regenerateIdPool_loop.simps [simp del]

definition regenerateIdPool ::
  "(nat \<Rightarrow> string) \<Rightarrow> CachedIdGenerator \<times> nat \<Rightarrow> CachedIdGenerator \<times> nat" where
  "regenerateIdPool U s = (case s of (g, n) \<Rightarrow> regenerateIdPool_loop U 0 (g\<lparr>idPool := []\<rparr>, n))"

text \<open>
  \<^verbatim>\<open>constructor() { this.idPool = []; this.regenerateIdPool(); }\<close>, with the field
  initialiser of \<open>ID_POOL_SIZE\<close> run first.
\<close>

definition CachedIdGenerator_new ::
  "(nat \<Rightarrow> string) \<Rightarrow> int \<Rightarrow> nat \<Rightarrow> CachedIdGenerator \<times> nat" where
  "CachedIdGenerator_new U capacity n =
     regenerateIdPool U (\<lparr>ID_POOL_SIZE = capacity, idPool = []\<rparr>, n)"

text \<open>
  \<^verbatim>\<open>
  generateId(): string {
    const id = this.idPool.pop();
    if (!id) {
      this.regenerateIdPool();
      return uuidv4();
    }
    return id;
  }
  \<close>
\<close>

definition generateId ::
  "(nat \<Rightarrow> string) \<Rightarrow> CachedIdGenerator \<times> nat \<Rightarrow> string \<times> (CachedIdGenerator \<times> nat)" where
  "generateId U s =
     (case s of (g, n) \<Rightarrow>
        (case pop (idPool g) of (id', pool') \<Rightarrow>
           if falsy id'
           then (case regenerateIdPool U (g\<lparr>idPool := pool'\<rparr>, n) of (g', n') \<Rightarrow>
                   (case uuidv4 U n' of (fresh, n'') \<Rightarrow> (fresh, (g', n''))))
           else (the id', (g\<lparr>idPool := pool'\<rparr>, n))))"

text \<open>A run of \<open>k\<close> consecutive calls, with the identifiers returned, in call order.\<close>

fun generateIds ::
  "(nat \<Rightarrow> string) \<Rightarrow> nat \<Rightarrow> CachedIdGenerator \<times> nat \<Rightarrow> string list \<times> (CachedIdGenerator \<times> nat)" where
  "generateIds U 0 s = ([], s)"
| "generateIds U (Suc k) s =
     (case generateId U s of (id', s') \<Rightarrow>
        (case generateIds U k s' of (ids, s'') \<Rightarrow> (id' # ids, s'')))"

text \<open>
  The states a generator can be in: the one the constructor leaves, and every state
  reached from it by calls of \<open>generateId\<close>.
\<close>

inductive reachable :: "(nat \<Rightarrow> string) \<Rightarrow> int \<Rightarrow> CachedIdGenerator \<times> nat \<Rightarrow> bool"
  for U :: "nat \<Rightarrow> string" and capacity :: int where
  constructed: "reachable U capacity (CachedIdGenerator_new U capacity n)"
| called: "reachable U capacity s \<Longrightarrow> reachable U capacity (snd (generateId U s))"

section \<open>JavaScript numbers and arrays\<close>

text \<open>
  A JavaScript number is an IEEE 754 binary64 value: a finite value, one of the two
  zeros, one of the two infinities, or NaN. \<open>Fin r\<close> is the finite value \<open>r\<close>, with
  \<open>Fin 0\<close> for the positive zero; \<open>NegZero\<close> is the negative zero.

  The arithmetic of the source computes the exact result and rounds it to the nearest
  double, to the one with an even significand when two are equally near. \<open>nearest a\<close>
  does this for a magnitude \<open>a\<close>: the binary exponent \<open>e\<close> of \<open>a\<close> is found (at least
  \<open>-1022\<close>, where the subnormal numbers begin), and \<open>a\<close> is rounded to a multiple of
  \<open>2 ^ (e - 52)\<close>. \<open>double x\<close> is the Number value for the real \<open>x\<close> of ECMAScript
  (6.1.6.1): a magnitude that rounds to \<open>2 ^ 1024\<close> or more gives an infinity, and one
  that rounds to zero gives the zero of the sign of \<open>x\<close>.
\<close>

datatype jsnum = Fin real | NegZero | PInf | NInf | NaN

definition round_half_even :: "real \<Rightarrow> int" where
  "round_half_even y =
     (let f = \<lfloor>y\<rfloor>; d = y - of_int f
      in if d < 1 / 2 then f else if 1 / 2 < d then f + 1 else if even f then f else f + 1)"

text \<open>
  The largest \<open>e\<close> with \<open>2 ^ e \<le> a\<close> among \<open>lo, ..., lo + 2 ^ k - 1\<close>, or \<open>lo\<close> when \<open>a\<close>
  is below \<open>2 ^ lo\<close>, found by bisection.
\<close>

fun exponent_search :: "real \<Rightarrow> int \<Rightarrow> nat \<Rightarrow> int" where
  "exponent_search a lo 0 = lo"
| "exponent_search a lo (Suc k) =
     (if 2 powi (lo + 2 ^ k) \<le> a then exponent_search a (lo + 2 ^ k) k
      else exponent_search a lo k)"

definition exponent :: "real \<Rightarrow> int" where
  "exponent a = exponent_search a (- 1022) 11"

definition nearest :: "real \<Rightarrow> real" where
  "nearest a = (let q = 2 powi (exponent a - 52) in of_int (round_half_even (a / q)) * q)"

definition double :: "real \<Rightarrow> jsnum" where
  "double x =
     (let r = nearest \<bar>x\<bar>
      in if 2 powi 1024 \<le> r then (if x < 0 then NInf else PInf)
         else if r = 0 then (if x < 0 then NegZero else Fin 0)
         else Fin (if x < 0 then - r else r))"

definition is_zero :: "jsnum \<Rightarrow> bool" where
  "is_zero x = (x = Fin 0 \<or> x = NegZero)"

definition is_inf :: "jsnum \<Rightarrow> bool" where
  "is_inf x = (x = PInf \<or> x = NInf)"

text \<open>The sign bit of a number that is not NaN.\<close>

definition negative :: "jsnum \<Rightarrow> bool" where
  "negative x =
     (case x of Fin r \<Rightarrow> r < 0 | NegZero \<Rightarrow> True | PInf \<Rightarrow> False | NInf \<Rightarrow> True | NaN \<Rightarrow> False)"

text \<open>The real number a finite value stands for; both zeros stand for 0.\<close>

definition mathematical_value :: "jsnum \<Rightarrow> real" where
  "mathematical_value x = (case x of Fin r \<Rightarrow> r | _ \<Rightarrow> 0)"

definition signed_zero :: "bool \<Rightarrow> jsnum" where
  "signed_zero neg = (if neg then NegZero else Fin 0)"

definition signed_inf :: "bool \<Rightarrow> jsnum" where
  "signed_inf neg = (if neg then NInf else PInf)"

text \<open>
  The operators \<^verbatim>\<open>+\<close>, \<^verbatim>\<open>-\<close>, \<^verbatim>\<open>*\<close>, \<^verbatim>\<open>/\<close> and \<^verbatim>\<open>>\<close> on numbers, as ECMAScript defines
  \<^verbatim>\<open>Number::add\<close>, \<^verbatim>\<open>Number::subtract\<close>, \<^verbatim>\<open>Number::multiply\<close>, \<^verbatim>\<open>Number::divide\<close> and
  \<^verbatim>\<open>Number::lessThan\<close>. A sum of two finite values that is exactly zero is the positive
  zero unless both are the negative zero; \<open>x - y\<close> is \<open>x + (-y)\<close>; the sign of a product
  or quotient is negative exactly when the signs of the operands differ.
\<close>

definition jsneg :: "jsnum \<Rightarrow> jsnum" where
  "jsneg x =
     (case x of
        Fin r \<Rightarrow> (if r = 0 then NegZero else Fin (- r))
      | NegZero \<Rightarrow> Fin 0
      | PInf \<Rightarrow> NInf
      | NInf \<Rightarrow> PInf
      | NaN \<Rightarrow> NaN)"

definition jsadd :: "jsnum \<Rightarrow> jsnum \<Rightarrow> jsnum" where
  "jsadd x y =
     (if x = NaN \<or> y = NaN then NaN
      else if is_inf x \<and> is_inf y then (if x = y then x else NaN)
      else if is_inf x then x
      else if is_inf y then y
      else if x = NegZero \<and> y = NegZero then NegZero
      else if is_zero x \<and> is_zero y then Fin 0
      else if is_zero x then y
      else if is_zero y then x
      else if mathematical_value x + mathematical_value y = 0 then Fin 0
      else double (mathematical_value x + mathematical_value y))"

definition jssub :: "jsnum \<Rightarrow> jsnum \<Rightarrow> jsnum" where
  "jssub x y = jsadd x (jsneg y)"

definition jsmul :: "jsnum \<Rightarrow> jsnum \<Rightarrow> jsnum" where
  "jsmul x y =
     (if x = NaN \<or> y = NaN then NaN
      else if (is_inf x \<and> is_zero y) \<or> (is_zero x \<and> is_inf y) then NaN
      else if is_inf x \<or> is_inf y then signed_inf (negative x \<noteq> negative y)
      else if is_zero x \<or> is_zero y then signed_zero (negative x \<noteq> negative y)
      else double (mathematical_value x * mathematical_value y))"

definition jsdiv :: "jsnum \<Rightarrow> jsnum \<Rightarrow> jsnum" where
  "jsdiv x y =
     (if x = NaN \<or> y = NaN then NaN
      else if is_inf x \<and> is_inf y then NaN
      else if is_inf x then signed_inf (negative x \<noteq> negative y)
      else if is_inf y then signed_zero (negative x \<noteq> negative y)
      else if is_zero x \<and> is_zero y then NaN
      else if is_zero y then signed_inf (negative x \<noteq> negative y)
      else if is_zero x then signed_zero (negative x \<noteq> negative y)
      else double (mathematical_value x / mathematical_value y))"

definition jsgt :: "jsnum \<Rightarrow> jsnum \<Rightarrow> bool" where
  "jsgt x y =
     (if x = NaN \<or> y = NaN then False
      else if x = NInf \<or> y = PInf then False
      else if x = PInf \<or> y = NInf then True
      else mathematical_value y < mathematical_value x)"

text \<open>
  Reading \<^verbatim>\<open>xs[i]\<close>: the element, or \<^verbatim>\<open>undefined\<close> (\<open>None\<close>) when \<open>i\<close> is not an index
  of the array. \<^verbatim>\<open>ToNumber(undefined)\<close> is NaN.
\<close>

definition index :: "'a list \<Rightarrow> nat \<Rightarrow> 'a option" where
  "index xs i = (if i < length xs then Some (xs ! i) else None)"

definition ToNumber :: "jsnum option \<Rightarrow> jsnum" where
  "ToNumber v = (case v of None \<Rightarrow> NaN | Some x \<Rightarrow> x)"

text \<open>
  \<^verbatim>\<open>Array.prototype.slice(start, end)\<close> with integral arguments: a negative argument
  counts from the end, both are clamped to the array, and an empty range gives \<open>[]\<close>.
\<close>

definition slice :: "'a list \<Rightarrow> int \<Rightarrow> int \<Rightarrow> 'a list" where
  "slice xs start fin =
     (let len = int (length xs);
          k = (if start < 0 then max (len + start) 0 else min start len);
          final = (if fin < 0 then max (len + fin) 0 else min fin len)
      in take (nat (final - k)) (drop (nat k) xs))"

text \<open>The decimal digits of a natural number, as \<^verbatim>\<open>ToString\<close> writes an integer.\<close>

definition digit :: "nat \<Rightarrow> char" where
  "digit d = ''0123456789'' ! d"

fun decimal :: "nat \<Rightarrow> string" where
  "decimal n = (if n < 10 then [digit n] else decimal (n div 10) @ [digit (n mod 10)])"

declare decimal.simps [simp del]

text \<open>
  \<^verbatim>\<open>Number.prototype.toFixed(f)\<close> (ECMAScript, 21.1.3.3). A value that is not finite is
  written by \<^verbatim>\<open>ToString\<close>. Otherwise the sign is split off (neither zero is below 0);
  \<open>n\<close> is the integer for which \<open>n / 10^f - x\<close> is closest to zero, the larger one if
  there are two; its digits are padded with zeros on the left to \<open>f + 1\<close> digits and the
  point is put before the last \<open>f\<close> digits. From \<open>10^21\<close> on the result is
  \<^verbatim>\<open>ToString(x)\<close>, in exponent notation with the shortest digit string that reads back
  as the same double; that string is the parameter \<open>E\<close>.
\<close>

definition toFixed :: "(real \<Rightarrow> string) \<Rightarrow> jsnum \<Rightarrow> nat \<Rightarrow> string" where
  "toFixed E x f =
     (case x of
        NaN \<Rightarrow> ''NaN''
      | PInf \<Rightarrow> ''Infinity''
      | NInf \<Rightarrow> ''-Infinity''
      | _ \<Rightarrow>
          (let r = mathematical_value x;
               s = (if r < 0 then ''-'' else '''');
               a = (if r < 0 then - r else r)
           in if 10 ^ 21 \<le> a then s @ E a
              else
                (let n = nat \<lfloor>a * 10 ^ f + 1 / 2\<rfloor>;
                     m = decimal n;
                     m' = (if f \<noteq> 0 \<and> length m \<le> f
                           then replicate (f + 1 - length m) CHR ''0'' @ m else m)
                 in if f \<noteq> 0
                    then s @ take (length m' - f) m' @ ''.'' @ drop (length m' - f) m'
                    else s @ m')))"

section \<open>The benchmark (id-caching.ts, lines 65-121)\<close>

text \<open>
  \<^verbatim>\<open>const ID_COUNT = 100000; const MICROSECONDS_CONVERSION = 1000;\<close>
  \<open>ID_COUNT\<close> is a module constant read by \<open>runTrials\<close>. The functions below take it as
  the argument \<open>idCount\<close>, so that statements can range over every number of identifiers
  per trial; the value of the source is \<open>ID_COUNT\<close>.
\<close>

definition ID_COUNT :: int where
  "ID_COUNT = 100000"

definition MICROSECONDS_CONVERSION :: jsnum where
  "MICROSECONDS_CONVERSION = Fin 1000"

text \<open>
  \<^verbatim>\<open>performance.now()\<close> returns, as a double, the milliseconds that have passed since
  the time origin on a clock that never runs backwards. Time passes with every step of
  the run, a clock reading or a call of the generator: the oracle \<open>K\<close> gives the
  nanoseconds that step \<open>k\<close> takes, and \<open>elapsed K c\<close> is the time at which step \<open>c\<close>
  ends. The clock counts nanoseconds in 64 bits and stays at its largest value once
  it is reached (after 584 years). The state of the clock is the number of steps made.
\<close>

fun elapsed :: "(nat \<Rightarrow> nat) \<Rightarrow> nat \<Rightarrow> nat" where
  "elapsed K 0 = K 0"
| "elapsed K (Suc c) = elapsed K c + K (Suc c)"

definition counter :: "(nat \<Rightarrow> nat) \<Rightarrow> nat \<Rightarrow> nat" where
  "counter K c = min (elapsed K c) (2 ^ 64 - 1)"

definition reading :: "(nat \<Rightarrow> nat) \<Rightarrow> nat \<Rightarrow> jsnum" where
  "reading K c = double (real (counter K c) / 10 ^ 6)"

definition performance_now :: "(nat \<Rightarrow> nat) \<Rightarrow> nat \<Rightarrow> jsnum \<times> nat" where
  "performance_now K c = (reading K c, Suc c)"

text \<open>
  An \<open>IdGenerator\<close> is its method \<open>generateId\<close>, a transformer of the generator's own
  state \<open>'s\<close> that returns the identifier. Calling it is a step of the run.
\<close>

definition call :: "('s \<Rightarrow> string \<times> 's) \<Rightarrow> 's \<Rightarrow> nat \<Rightarrow> string \<times> 's \<times> nat" where
  "call idGenerator g c = (case idGenerator g of (id', g') \<Rightarrow> (id', g', Suc c))"

text \<open>
  \<^verbatim>\<open>
  const runTrials = (idGenerator: IdGenerator, trials: number) => {
    const times: number[] = [];
    for (let i = 0; i < trials; i++) {
      for (let j = 0; j < ID_COUNT; j++) {
        const idStartTime = performance.now();
        idGenerator.generateId();
        const idEndTime = performance.now();
        times.push((idEndTime - idStartTime) * MICROSECONDS_CONVERSION);
      }
    }
    const averageTimes = [];
    for (let i = 0; i < trials; i++) {
      const trialTimes = times.slice(i * ID_COUNT, (i + 1) * ID_COUNT);
      const averageTime =
        trialTimes.reduce((a, b) => a + b, 0) / trialTimes.length;
      averageTimes.push(averageTime);
    }
    return averageTimes;
  };
  \<close>
  The loops thread the array \<open>times\<close>, the generator's state and the state of the
  clock. The length of an array is below \<open>2 ^ 32\<close> and so is a double as it stands.
\<close>

function runTrials_inner ::
  "('s \<Rightarrow> string \<times> 's) \<Rightarrow> (nat \<Rightarrow> nat) \<Rightarrow> int \<Rightarrow> int \<Rightarrow> jsnum list \<times> 's \<times> nat
     \<Rightarrow> jsnum list \<times> 's \<times> nat" where
  "runTrials_inner idGenerator K idCount j (times', g, c) =
     (if j < idCount
      then (case performance_now K c of (idStartTime, c1) \<Rightarrow>
             (case call idGenerator g c1 of (id', g', c2) \<Rightarrow>
               (case performance_now K c2 of (idEndTime, c3) \<Rightarrow>
                  runTrials_inner idGenerator K idCount (j + 1)
                    (times' @ [jsmul (jssub idEndTime idStartTime) MICROSECONDS_CONVERSION], g', c3))))
      else (times', g, c))"
  by pat_completeness auto
termination
  by (relation "measure (\<lambda>(idGenerator, K, idCount, j, st). nat (idCount - j))") auto

declare runTrials_inner.simps [simp del]

function runTrials_outer ::
  "('s \<Rightarrow> string \<times> 's) \<Rightarrow> (nat \<Rightarrow> nat) \<Rightarrow> int \<Rightarrow> int \<Rightarrow> int \<Rightarrow> jsnum list \<times> 's \<times> nat
     \<Rightarrow> jsnum list \<times> 's \<times> nat" where
  "runTrials_outer idGenerator K idCount trials i st =
     (if i < trials
      then runTrials_outer idGenerator K idCount trials (i + 1)
             (runTrials_inner idGenerator K idCount 0 st)
      else st)"
  by pat_completeness auto
termination
  by (relation "measure (\<lambda>(idGenerator, K, idCount, trials, i, st). nat (trials - i))") auto

declare runTrials_outer.simps [simp del]

function runTrials_average :: "int \<Rightarrow> int \<Rightarrow> jsnum list \<Rightarrow> int \<Rightarrow> jsnum list \<Rightarrow> jsnum list" where
  "runTrials_average idCount trials times' i averageTimes =
     (if i < trials
      then (let trialTimes = slice times' (i * idCount) ((i + 1) * idCount);
                averageTime = jsdiv (foldl jsadd (Fin 0) trialTimes)
                                    (Fin (real (length trialTimes)))
            in runTrials_average idCount trials times' (i + 1) (averageTimes @ [averageTime]))
      else averageTimes)"
  by pat_completeness auto
termination
  by (relation "measure (\<lambda>(idCount, trials, times', i, averageTimes). nat (trials - i))") auto

declare runTrials_average.simps [simp del]

definition runTrials ::
  "('s \<Rightarrow> string \<times> 's) \<Rightarrow> (nat \<Rightarrow> nat) \<Rightarrow> int \<Rightarrow> int \<Rightarrow> 's \<times> nat \<Rightarrow> jsnum list \<times> 's \<times> nat" where
  "runTrials idGenerator K idCount trials s =
     (case s of (g, c) \<Rightarrow>
        (case runTrials_outer idGenerator K idCount trials 0 ([], g, c) of (times', g', c') \<Rightarrow>
           (runTrials_average idCount trials times' 0 [], g', c')))"

text \<open>
  \<^verbatim>\<open>
  const printComparisonTable = (normalTimes: number[], cachedTimes: number[]) => {
    const table = [];
    for (let i = 0; i < normalTimes.length; i++) {
      const normalTime = normalTimes[i];
      const cachedTime = cachedTimes[i];
      const difference = normalTime / cachedTime;
      const differenceLabel =
        difference > 1
          ? `${difference.toFixed(2)}x faster`
          : `${(1 / difference).toFixed(2)}x slower`;
      table.push({
        Trial: i + 1,
        "Normal ID Generation": `${normalTime.toFixed(2)}[micro]s`,
        "Cached ID Generation": `${cachedTime.toFixed(2)}[micro]s`,
        Difference: differenceLabel,
      });
    }
    console.table(table);
  };
  \<close>
  where [micro] stands for the micro sign U+00B5 of the source. Calling a method on
  \<^verbatim>\<open>undefined\<close> throws a \<^verbatim>\<open>TypeError\<close>; it is the only exception the program can raise.
  The result of the model is the table handed to \<^verbatim>\<open>console.table\<close>, or the exception.
\<close>

datatype js_error = TypeError

record row =
  Trial :: nat
  Normal_ID_Generation :: string
  Cached_ID_Generation :: string
  Difference :: string

text \<open>The micro sign followed by s, in UTF-8.\<close>

definition micro_s :: string where
  "micro_s = [CHR 0xC2, CHR 0xB5, CHR ''s'']"

definition differenceLabel :: "(real \<Rightarrow> string) \<Rightarrow> jsnum \<Rightarrow> jsnum option \<Rightarrow> string" where
  "differenceLabel E normalTime cachedTime =
     (let difference = jsdiv normalTime (ToNumber cachedTime)
      in if jsgt difference (Fin 1)
         then toFixed E difference 2 @ ''x faster''
         else toFixed E (jsdiv (Fin 1) difference) 2 @ ''x slower'')"

function printComparisonTable_loop ::
  "(real \<Rightarrow> string) \<Rightarrow> jsnum list \<Rightarrow> jsnum list \<Rightarrow> nat \<Rightarrow> row list \<Rightarrow> js_error + row list" where
  "printComparisonTable_loop E normalTimes cachedTimes i table =
     (if i < length normalTimes
      then (let normalTime = normalTimes ! i;
                cachedTime = index cachedTimes i;
                label = differenceLabel E normalTime cachedTime
            in case cachedTime of
                 None \<Rightarrow> Inl TypeError
               | Some c \<Rightarrow>
                   printComparisonTable_loop E normalTimes cachedTimes (i + 1)
                     (table @ [\<lparr>Trial = i + 1,
                                Normal_ID_Generation = toFixed E normalTime 2 @ micro_s,
                                Cached_ID_Generation = toFixed E c 2 @ micro_s,
                                Difference = label\<rparr>]))
      else Inr table)"
  by pat_completeness auto
termination
  by (relation "measure (\<lambda>(E, normalTimes, cachedTimes, i, table). length normalTimes - i)") auto

declare printComparisonTable_loop.simps [simp del]

definition printComparisonTable ::
  "(real \<Rightarrow> string) \<Rightarrow> jsnum list \<Rightarrow> jsnum list \<Rightarrow> js_error + row list" where
  "printComparisonTable E normalTimes cachedTimes =
     printComparisonTable_loop E normalTimes cachedTimes 0 []"

text \<open>
  \<^verbatim>\<open>
  const runExperiment = (trials: number) => {
    const normalIdGenerator = new NormalIdGenerator();
    const cachedIdGenerator = new CachedIdGenerator();
    console.log("Running trials for Normal ID generation...");
    const normalTimes = runTrials(normalIdGenerator, trials);
    console.log("Running trials for Cached ID generation...");
    const cachedTimes = runTrials(cachedIdGenerator, trials);
    printComparisonTable(normalTimes, cachedTimes);
  };
  runExperiment(5);
  \<close>
  The state of the process is the number of identifiers drawn and the state of the
  clock. The result is what was written to the console, or the exception.
\<close>

datatype console_output = Log string | Table "row list"

definition runExperiment ::
  "(nat \<Rightarrow> string) \<Rightarrow> (nat \<Rightarrow> nat) \<Rightarrow> (real \<Rightarrow> string) \<Rightarrow> int \<Rightarrow> int \<Rightarrow> int \<Rightarrow> nat \<times> nat
     \<Rightarrow> js_error + console_output list" where
  "runExperiment U K E poolSize idCount trials s =
     (case s of (n, c) \<Rightarrow>
        (case CachedIdGenerator_new U poolSize n of (cachedIdGenerator, n1) \<Rightarrow>
          (case runTrials (NormalIdGenerator_generateId U) K idCount trials (n1, c)
             of (normalTimes, n2, c1) \<Rightarrow>
            (case runTrials (generateId U) K idCount trials ((cachedIdGenerator, n2), c1)
               of (cachedTimes, g', c2) \<Rightarrow>
              (case printComparisonTable E normalTimes cachedTimes of
                 Inl e \<Rightarrow> Inl e
               | Inr table \<Rightarrow>
                   Inr [Log ''Running trials for Normal ID generation...'',
                        Log ''Running trials for Cached ID generation...'',
                        Table table])))))"

definition main :: "(nat \<Rightarrow> string) \<Rightarrow> (nat \<Rightarrow> nat) \<Rightarrow> (real \<Rightarrow> string) \<Rightarrow> js_error + console_output list" where
  "main U K E = runExperiment U K E ID_POOL_SIZE_source ID_COUNT 5 (0, 0)"

section \<open>What the statements are about\<close>

text \<open>
  Call number \<open>m\<close> of \<open>generateId\<close> (counted from 0) in a run of \<open>runTrials\<close> that starts
  in clock state \<open>c\<close> is step \<open>c + 3 * m + 1\<close>; the reading before it is step
  \<open>c + 3 * m\<close> and the reading after it is step \<open>c + 3 * m + 2\<close>. The duration recorded
  for the call is the difference of the two readings, in milliseconds, times 1000, as
  the source computes it. Trial \<open>i\<close> of \<open>N\<close> identifiers per trial is made of the calls
  \<open>i * N\<close> to \<open>(i + 1) * N - 1\<close>.
\<close>

definition duration :: "(nat \<Rightarrow> nat) \<Rightarrow> nat \<Rightarrow> nat \<Rightarrow> jsnum" where
  "duration K c m =
     jsmul (jssub (reading K (c + 3 * m + 2)) (reading K (c + 3 * m))) MICROSECONDS_CONVERSION"

definition trial_durations :: "(nat \<Rightarrow> nat) \<Rightarrow> nat \<Rightarrow> nat \<Rightarrow> nat \<Rightarrow> jsnum list" where
  "trial_durations K c N i = map (duration K c) [i * N..<(i + 1) * N]"

text \<open>
  The arithmetic mean as the specification words it, in the numbers of the program:
  the sum of the values, added up from 0 in their order, divided by their count. For
  no value at all it is 0 / 0, which is NaN.
\<close>

definition arithmetic_mean :: "jsnum list \<Rightarrow> jsnum" where
  "arithmetic_mean xs = jsdiv (foldl jsadd (Fin 0) xs) (Fin (real (length xs)))"

text \<open>The state of a generator after \<open>k\<close> calls of its \<open>generateId\<close>.\<close>

definition calls :: "('s \<Rightarrow> string \<times> 's) \<Rightarrow> nat \<Rightarrow> 's \<Rightarrow> 's" where
  "calls idGenerator k g = ((\<lambda>s. snd (idGenerator s)) ^^ k) g"

text \<open>The row that \<open>printComparisonTable\<close> pushes for index \<open>i\<close> when both times exist.\<close>

definition table_row :: "(real \<Rightarrow> string) \<Rightarrow> nat \<Rightarrow> jsnum \<Rightarrow> jsnum \<Rightarrow> row" where
  "table_row E i normalTime cachedTime =
     \<lparr>Trial = i + 1,
      Normal_ID_Generation = toFixed E normalTime 2 @ micro_s,
      Cached_ID_Generation = toFixed E cachedTime 2 @ micro_s,
      Difference = differenceLabel E normalTime (Some cachedTime)\<rparr>"

section \<open>Concrete inputs for the examples\<close>

text \<open>
  The k-th identifier is the letter u repeated k + 1 times: non-empty, and different
  draws give different strings. With \<open>sample_clock\<close> step \<open>k\<close> takes \<open>2 * (k + 1)\<close>
  milliseconds, so that step \<open>c\<close> ends at \<open>(c + 1) * (c + 2)\<close> milliseconds. With
  \<open>microsecond_clock\<close> step \<open>c\<close> ends at \<open>c * c\<close> microseconds.
\<close>

definition sample_uuid :: "nat \<Rightarrow> string" where
  "sample_uuid k = replicate (Suc k) CHR ''u''"

definition sample_clock :: "nat \<Rightarrow> nat" where
  "sample_clock k = 2000000 * (k + 1)"


definition sample_exponent :: "real \<Rightarrow> string" where
  "sample_exponent r = ''1e+21''"

section \<open>Properties of the pool\<close>

lemma regenerateIdPool_loop_eq:
  "regenerateIdPool_loop U i (g, n) =
     (g\<lparr>idPool := idPool g @ map U [n..<n + nat (ID_POOL_SIZE g - i)]\<rparr>,
      n + nat (ID_POOL_SIZE g - i))"
proof (induction U i "(g, n)" arbitrary: g n rule: regenerateIdPool_loop.induct)
  case (1 U i g n)
  show ?case
  proof (cases "i < ID_POOL_SIZE g")
    case True
    then have k: "nat (ID_POOL_SIZE g - i) = Suc (nat (ID_POOL_SIZE g - (i + 1)))"
      by simp
    have "regenerateIdPool_loop U i (g, n) =
            regenerateIdPool_loop U (i + 1) (g\<lparr>idPool := idPool g @ [U n]\<rparr>, Suc n)"
      using True by (simp add: regenerateIdPool_loop.simps [of U i g n] uuidv4_def)
    also have "\<dots> = (g\<lparr>idPool := (idPool g @ [U n]) @ map U [Suc n..<Suc n + nat (ID_POOL_SIZE g - (i + 1))]\<rparr>,
                     Suc n + nat (ID_POOL_SIZE g - (i + 1)))"
      using "1" [OF True, of "U n" "Suc n"] by (simp add: uuidv4_def)
    also have "\<dots> = (g\<lparr>idPool := idPool g @ map U [n..<n + nat (ID_POOL_SIZE g - i)]\<rparr>,
                     n + nat (ID_POOL_SIZE g - i))"
      unfolding k by (simp add: upt_rec [of n])
    finally show ?thesis .
  next
    case False
    then show ?thesis
      by (simp add: regenerateIdPool_loop.simps [of U i g n])
  qed
qed

lemma regenerateIdPool_eq:
  "regenerateIdPool U (g, n) =
     (g\<lparr>idPool := map U [n..<n + nat (ID_POOL_SIZE g)]\<rparr>, n + nat (ID_POOL_SIZE g))"
  by (simp add: regenerateIdPool_def regenerateIdPool_loop_eq)

lemma CachedIdGenerator_new_eq:
  "CachedIdGenerator_new U capacity n =
     (\<lparr>ID_POOL_SIZE = capacity, idPool = map U [n..<n + nat capacity]\<rparr>, n + nat capacity)"
  by (simp add: CachedIdGenerator_new_def regenerateIdPool_eq)

lemma generateId_exhausted:
  assumes "idPool g = [] \<or> last (idPool g) = []"
  shows "generateId U (g, n) =
           (U (n + nat (ID_POOL_SIZE g)),
            (g\<lparr>idPool := map U [n..<n + nat (ID_POOL_SIZE g)]\<rparr>, Suc (n + nat (ID_POOL_SIZE g))))"
  using assms
  by (auto simp: generateId_def pop_def falsy_def regenerateIdPool_eq uuidv4_def)

lemma generateId_pooled:
  assumes "idPool g \<noteq> []" and "last (idPool g) \<noteq> []"
  shows "generateId U (g, n) = (last (idPool g), (g\<lparr>idPool := butlast (idPool g)\<rparr>, n))"
  using assms by (simp add: generateId_def pop_def falsy_def)

lemma sample_uuid_inj: "inj sample_uuid"
proof (rule injI)
  fix x y assume "sample_uuid x = sample_uuid y"
  then have "length (sample_uuid x) = length (sample_uuid y)" by simp
  then show "x = y" by (simp add: sample_uuid_def)
qed

lemma sample_uuid_nonempty: "sample_uuid k \<noteq> []"
  by (simp add: sample_uuid_def)

lemma fresh_not_pooled:
  assumes "inj U" shows "U (n + k) \<notin> set (map U [n..<n + k])"
  using assms by (auto dest: injD)

lemma reachable_inv:
  assumes U: "\<forall>k. U k \<noteq> []" and r: "reachable U capacity s"
  shows "ID_POOL_SIZE (fst s) = capacity \<and> length (idPool (fst s)) \<le> nat capacity \<and>
         [] \<notin> set (idPool (fst s))"
  using r
proof (induction rule: reachable.induct)
  case (constructed n)
  have "[] \<notin> U ` A" for A using U by (metis imageE)
  then show ?case by (simp add: CachedIdGenerator_new_eq)
next
  case (called s)
  obtain g n where s: "s = (g, n)" by (cases s)
  show ?case
  proof (cases "idPool g = []")
    case True
    have "[] \<notin> U ` A" for A using U by (metis imageE)
    with True show ?thesis using called by (simp add: s generateId_exhausted)
  next
    case False
    then have "last (idPool g) \<noteq> []" using called s by (metis fst_conv last_in_set)
    with False show ?thesis using called 
      by (auto simp: s generateId_pooled dest: in_set_butlastD)
  qed
qed

lemma generateIds_pooled:
  assumes "[] \<notin> set (idPool g)" and "k \<le> length (idPool g)"
  shows "generateIds U k (g, n) =
           (take k (rev (idPool g)), (g\<lparr>idPool := take (length (idPool g) - k) (idPool g)\<rparr>, n))"
  using assms
proof (induction k arbitrary: g)
  case 0
  then show ?case by simp
next
  case (Suc k)
  then obtain q x where p: "idPool g = q @ [x]"
    by (cases "idPool g" rule: rev_cases) auto
  with Suc.prems have x: "x \<noteq> []" by auto
  have step: "generateId U (g, n) = (x, (g\<lparr>idPool := q\<rparr>, n))"
    using generateId_pooled [of g U n] x by (simp add: p)
  have "generateIds U k (g\<lparr>idPool := q\<rparr>, n) =
          (take k (rev q), (g\<lparr>idPool := take (length q - k) q\<rparr>, n))"
    using Suc.IH [of "g\<lparr>idPool := q\<rparr>"] Suc.prems by (simp add: p)
  then show ?case by (simp add: step p)
qed

lemma generateIds_Suc_right:
  "generateIds U (Suc k) s =
     (fst (generateIds U k s) @ [fst (generateId U (snd (generateIds U k s)))],
      snd (generateId U (snd (generateIds U k s))))"
  by (induction k arbitrary: s) (simp_all add: split_beta)

section \<open>Properties of the rounding\<close>

lemma exponent_search_lower:
  "exponent_search a lo k = lo \<or> 2 powi (exponent_search a lo k) \<le> a"
proof (induction k arbitrary: lo)
  case 0
  then show ?case by simp
next
  case (Suc k)
  show ?case
  proof (cases "2 powi (lo + 2 ^ k) \<le> a")
    case True
    then show ?thesis using Suc [of "lo + 2 ^ k"] by auto
  next
    case False
    then show ?thesis using Suc [of lo] by simp
  qed
qed

lemma exponent_search_upper:
  "exponent_search a lo k = lo + 2 ^ k - 1 \<or> a < 2 powi (exponent_search a lo k + 1)"
proof (induction k arbitrary: lo)
  case 0
  then show ?case by simp
next
  case (Suc k)
  show ?case
  proof (cases "2 powi (lo + 2 ^ k) \<le> a")
    case True
    then show ?thesis using Suc [of "lo + 2 ^ k"] by auto
  next
    case False
    then show ?thesis using Suc [of lo] by auto
  qed
qed

lemma exponent_search_range:
  "lo \<le> exponent_search a lo k \<and> exponent_search a lo k \<le> lo + 2 ^ k - 1"
proof (induction k arbitrary: lo)
  case 0
  then show ?case by simp
next
  case (Suc k)
  show ?case
  proof (cases "2 powi (lo + 2 ^ k) \<le> a")
    case True
    then show ?thesis using Suc [of "lo + 2 ^ k"] by auto
  next
    case False
    have "(0::int) \<le> 2 ^ k" by simp
    then show ?thesis using False Suc [of lo] by auto
  qed
qed

lemma exponent_lower: "exponent a = - 1022 \<or> 2 powi (exponent a) \<le> a"
  unfolding exponent_def by (rule exponent_search_lower)

lemma exponent_upper: "exponent a = 1025 \<or> a < 2 powi (exponent a + 1)"
  using exponent_search_upper [of a "- 1022" 11] by (simp add: exponent_def)

lemma exponent_range: "- 1022 \<le> exponent a" "exponent a \<le> 1025"
  using exponent_search_range [of "- 1022" a 11] by (simp_all add: exponent_def)

lemma two_powi_mono: "m \<le> n \<Longrightarrow> (2::real) powi m \<le> 2 powi n"
  by (rule power_int_increasing) simp_all

lemma exponent_unique:
  assumes "2 powi e \<le> a" and "a < 2 powi (e + 1)" and "- 1022 \<le> e" and "e \<le> 1025"
  shows "exponent a = e"
proof (rule ccontr)
  assume ne: "exponent a \<noteq> e"
  show False
  proof (cases "exponent a < e")
    case True
    then have "exponent a \<noteq> 1025" using assms(4) by simp
    then have "a < 2 powi (exponent a + 1)" using exponent_upper [of a] by simp
    also have "\<dots> \<le> 2 powi e" using True by (intro two_powi_mono) simp
    finally show False using assms(1) by simp
  next
    case False
    then have gt: "e < exponent a" using ne by simp
    then have "exponent a \<noteq> - 1022" using assms(3) by simp
    then have "2 powi (exponent a) \<le> a" using exponent_lower [of a] by simp
    moreover have "2 powi (e + 1) \<le> (2::real) powi (exponent a)"
      using gt by (intro two_powi_mono) simp
    ultimately show False using assms(2) by simp
  qed
qed

lemma exponent_subnormal:
  assumes "a < 2 powi (- 1022)"
  shows "exponent a = - 1022"
proof (rule ccontr)
  assume "exponent a \<noteq> - 1022"
  then have "2 powi (exponent a) \<le> a" using exponent_lower [of a] by simp
  moreover have "(2::real) powi (- 1022) \<le> 2 powi (exponent a)"
    using exponent_range(1) [of a] by (intro two_powi_mono)
  ultimately show False using assms by simp
qed

lemma exponent_mono:
  assumes "a \<le> b"
  shows "exponent a \<le> exponent b"
proof (rule ccontr)
  assume "\<not> exponent a \<le> exponent b"
  then have gt: "exponent b < exponent a" by simp
  then have "exponent a \<noteq> - 1022" using exponent_range(1) [of b] by simp
  then have lo: "2 powi (exponent a) \<le> a" using exponent_lower [of a] by simp
  have "exponent b \<noteq> 1025" using gt exponent_range(2) [of a] by simp
  then have "b < 2 powi (exponent b + 1)" using exponent_upper [of b] by simp
  also have "\<dots> \<le> 2 powi (exponent a)" using gt by (intro two_powi_mono) simp
  finally show False using lo assms by simp
qed

lemma round_half_even_ge: "of_int n \<le> y \<Longrightarrow> n \<le> round_half_even y"
proof -
  assume "of_int n \<le> y"
  then have "n \<le> \<lfloor>y\<rfloor>" by (simp add: le_floor_iff)
  then show ?thesis by (simp add: round_half_even_def Let_def)
qed

lemma round_half_even_le: "y \<le> of_int n \<Longrightarrow> round_half_even y \<le> n"
proof (cases "y = of_int n")
  case True
  then show ?thesis by (simp add: round_half_even_def)
next
  case False
  assume "y \<le> of_int n"
  with False have "y < of_int n" by simp
  then have "\<lfloor>y\<rfloor> < n" by (simp add: floor_less_iff)
  then show ?thesis by (simp add: round_half_even_def Let_def)
qed

lemma round_half_even_of_int [simp]: "round_half_even (of_int n) = n"
  by (simp add: round_half_even_def)

lemma round_half_even_mono:
  assumes "y \<le> z"
  shows "round_half_even y \<le> round_half_even z"
proof (cases "\<lfloor>y\<rfloor> = \<lfloor>z\<rfloor>")
  case True
  then have "y - of_int \<lfloor>y\<rfloor> \<le> z - of_int \<lfloor>z\<rfloor>" using assms by simp
  then show ?thesis using True by (auto simp: round_half_even_def Let_def)
next
  case False
  have "\<lfloor>y\<rfloor> \<le> \<lfloor>z\<rfloor>" using assms by (rule floor_mono)
  with False have "\<lfloor>y\<rfloor> + 1 \<le> \<lfloor>z\<rfloor>" by simp
  moreover have "round_half_even y \<le> \<lfloor>y\<rfloor> + 1" by (simp add: round_half_even_def Let_def)
  moreover have "\<lfloor>z\<rfloor> \<le> round_half_even z" by (simp add: round_half_even_def Let_def)
  ultimately show ?thesis by linarith
qed

lemma two_powi_add: "(2::real) powi m * 2 powi n = 2 powi (m + n)"
  by (simp add: power_int_add)

lemma nearest_nonneg: "0 \<le> a \<Longrightarrow> 0 \<le> nearest a"
proof -
  assume "0 \<le> a"
  then have "of_int 0 \<le> a / 2 powi (exponent a - 52)" by simp
  then have "0 \<le> round_half_even (a / 2 powi (exponent a - 52))"
    by (rule round_half_even_ge)
  then show ?thesis by (simp add: nearest_def Let_def)
qed

lemma nearest_upper:
  assumes "a < 2 powi (exponent a + 1)"
  shows "nearest a \<le> 2 powi (exponent a + 1)"
proof -
  let ?q = "(2::real) powi (exponent a - 52)"
  have "53 + (exponent a - 52) = exponent a + 1" by simp
  then have split: "(2::real) powi (exponent a + 1) = 2 powi 53 * ?q"
    by (simp only: two_powi_add)
  have "a / ?q \<le> 2 powi 53" using assms by (simp add: split pos_divide_le_eq)
  then have "a / ?q \<le> of_int (2 ^ 53)" by simp
  then have "round_half_even (a / ?q) \<le> 2 ^ 53" by (rule round_half_even_le)
  then have "of_int (round_half_even (a / ?q)) \<le> (2::real) powi 53"
    by (metis of_int_le_iff of_int_numeral of_int_power power_int_numeral)
  then show ?thesis
    unfolding nearest_def Let_def split by (simp add: mult_right_mono)
qed

lemma nearest_lower:
  assumes "2 powi (exponent a) \<le> a"
  shows "2 powi (exponent a) \<le> nearest a"
proof -
  let ?q = "(2::real) powi (exponent a - 52)"
  have "52 + (exponent a - 52) = exponent a" by simp
  then have split: "(2::real) powi (exponent a) = 2 powi 52 * ?q"
    by (simp only: two_powi_add)
  have "2 powi 52 \<le> a / ?q" using assms by (simp add: split pos_le_divide_eq)
  then have "of_int (2 ^ 52) \<le> a / ?q" by simp
  then have "2 ^ 52 \<le> round_half_even (a / ?q)" by (rule round_half_even_ge)
  then have "(2::real) powi 52 \<le> of_int (round_half_even (a / ?q))"
    by (metis of_int_le_iff of_int_numeral of_int_power power_int_numeral)
  then show ?thesis
    unfolding nearest_def Let_def split by (simp add: mult_right_mono)
qed

lemma nearest_mono:
  assumes "a \<le> b"
  shows "nearest a \<le> nearest b"
proof (cases "exponent a = exponent b")
  case True
  let ?q = "(2::real) powi (exponent b - 52)"
  have "a / ?q \<le> b / ?q" using assms by (simp add: divide_right_mono)
  then have "round_half_even (a / ?q) \<le> round_half_even (b / ?q)"
    by (rule round_half_even_mono)
  then show ?thesis
    by (simp add: nearest_def Let_def True mult_right_mono)
next
  case False
  with exponent_mono [OF assms] have lt: "exponent a < exponent b" by simp
  then have "exponent a \<noteq> 1025" using exponent_range(2) [of b] by simp
  then have "a < 2 powi (exponent a + 1)" using exponent_upper [of a] by simp
  then have "nearest a \<le> 2 powi (exponent a + 1)" by (rule nearest_upper)
  also have "\<dots> \<le> 2 powi (exponent b)" using lt by (intro two_powi_mono) simp
  also have "\<dots> \<le> nearest b"
  proof -
    have "exponent b \<noteq> - 1022" using lt exponent_range(1) [of a] by simp
    then have "2 powi (exponent b) \<le> b" using exponent_lower [of b] by simp
    then show ?thesis by (rule nearest_lower)
  qed
  finally show ?thesis .
qed

lemma nearest_normal:
  assumes "2 powi e \<le> a" and "a < 2 powi (e + 1)" and "- 1022 \<le> e" and "e \<le> 1025"
  shows "nearest a = of_int (round_half_even (a / 2 powi (e - 52))) * 2 powi (e - 52)"
  using exponent_unique [OF assms] by (simp add: nearest_def Let_def)

lemma nearest_zero [simp]: "nearest 0 = 0"
  by (simp add: nearest_def round_half_even_def)

lemma nearest_of_int:
  assumes "0 \<le> m" and "m < 2 ^ 53"
  shows "nearest (of_int m) = of_int m"
proof (cases "m = 0")
  case True
  then show ?thesis by simp
next
  case False
  define E where "E = exponent (of_int m)"
  have "E \<le> 52"
  proof (rule ccontr)
    assume "\<not> E \<le> 52"
    then have big: "53 \<le> E" by simp
    then have "E \<noteq> - 1022" by simp
    then have "2 powi E \<le> (of_int m :: real)"
      using exponent_lower [of "of_int m"] by (simp add: E_def)
    moreover have "(2::real) powi 53 \<le> 2 powi E" using big by (rule two_powi_mono)
    moreover have "(of_int m :: real) < 2 powi 53"
      using assms(2) by (metis of_int_less_iff of_int_numeral of_int_power power_int_numeral)
    ultimately show False by simp
  qed
  then obtain d where d: "52 - E = int d" using nonneg_int_cases [of "52 - E"] by auto
  then have "E - 52 = - int d" by simp
  then have q: "(2::real) powi (E - 52) = inverse (2 ^ d)"
    by (simp add: power_int_minus)
  have "of_int m / (2::real) powi (E - 52) = of_int (m * 2 ^ d)"
    by (simp add: q divide_inverse)
  then have "round_half_even (of_int m / 2 powi (E - 52)) = m * 2 ^ d"
    by (simp only: round_half_even_of_int)
  then show ?thesis
    by (simp add: nearest_def Let_def E_def [symmetric] q)
qed

lemma double_of_int:
  assumes "\<bar>m\<bar> < 2 ^ 53"
  shows "double (of_int m) = Fin (of_int m)"
proof -
  have n: "nearest \<bar>of_int m :: real\<bar> = of_int \<bar>m\<bar>"
    using nearest_of_int [of "\<bar>m\<bar>"] assms by simp
  have "(of_int \<bar>m\<bar> :: real) < 2 powi 1024"
  proof -
    have "(of_int \<bar>m\<bar> :: real) < 2 powi 53"
      using assms by (metis of_int_less_iff of_int_numeral of_int_power power_int_numeral)
    also have "\<dots> \<le> 2 powi 1024" by (rule two_powi_mono) simp
    finally show ?thesis .
  qed
  then show ?thesis
    unfolding double_def Let_def n by auto
qed

lemma double_numeral:
  "numeral n < (2::int) ^ 53 \<Longrightarrow> double (numeral n) = Fin (numeral n)"
  "numeral n < (2::int) ^ 53 \<Longrightarrow> double (- numeral n) = Fin (- numeral n)"
  using double_of_int [of "numeral n"] double_of_int [of "- numeral n"] by simp_all

lemma double_bounded:
  assumes "0 \<le> x" and "x \<le> y" and "nearest y < 2 powi 1024"
  shows "\<exists>r. double x = Fin r \<and> 0 \<le> r \<and> r \<le> nearest y"
proof -
  have "nearest \<bar>x\<bar> \<le> nearest y" using assms(1,2) by (simp add: nearest_mono)
  moreover have "0 \<le> nearest \<bar>x\<bar>" by (simp add: nearest_nonneg)
  ultimately show ?thesis
    using assms(1,3) by (auto simp: double_def Let_def)
qed


section \<open>Properties of the benchmark loops\<close>

lemma duration_shift: "duration K (c + 3 * k) m = duration K c (k + m)"
proof -
  have "c + 3 * k + 3 * m = c + 3 * (k + m)" by simp
  then show ?thesis by (simp only: duration_def)
qed

lemma calls_Suc: "calls G (Suc k) g = calls G k (snd (G g))"
  by (simp only: calls_def funpow_Suc_right o_apply)

lemma runTrials_inner_eq:
  "runTrials_inner G K idCount j (ts, g, c) =
     (ts @ map (duration K c) [0..<nat (idCount - j)],
      calls G (nat (idCount - j)) g,
      c + 3 * nat (idCount - j))"
proof (induction G K idCount j "(ts, g, c)" arbitrary: ts g c rule: runTrials_inner.induct)
  case (1 G K idCount j ts g c)
  show ?case
  proof (cases "j < idCount")
    case True
    then have k: "nat (idCount - j) = Suc (nat (idCount - (j + 1)))"
      by simp
    have d0: "jsmul (jssub (reading K (Suc (Suc c))) (reading K c)) MICROSECONDS_CONVERSION =
                duration K c 0"
      by (simp add: duration_def)
    have step: "runTrials_inner G K idCount j (ts, g, c) =
            runTrials_inner G K idCount (j + 1)
              (ts @ [duration K c 0], snd (G g), Suc (Suc (Suc c)))"
      using True
      by (simp add: runTrials_inner.simps [of G K idCount j ts g c] performance_now_def
          call_def split_beta d0)
    have ih: "runTrials_inner G K idCount (j + 1)
                (ts @ [duration K c 0], snd (G g), Suc (Suc (Suc c))) =
              ((ts @ [duration K c 0]) @
                 map (duration K (Suc (Suc (Suc c)))) [0..<nat (idCount - (j + 1))],
               calls G (nat (idCount - (j + 1))) (snd (G g)),
               Suc (Suc (Suc c)) + 3 * nat (idCount - (j + 1)))"
      using "1" [OF True, of "reading K c" "Suc c" "fst (G g)" "(snd (G g), Suc (Suc c))"
                   "snd (G g)" "Suc (Suc c)" "reading K (Suc (Suc c))" "Suc (Suc (Suc c))"]
      by (simp add: performance_now_def call_def split_beta d0)
    have sh: "duration K (Suc (Suc (Suc c))) m = duration K c (Suc m)" for m
      using duration_shift [of K c 1 m] by (simp add: numeral_3_eq_3)
    show ?thesis
      unfolding step ih k
      by (simp add: sh map_upt_Suc calls_Suc del: upt_Suc)
  next
    case False
    then show ?thesis
      by (simp add: runTrials_inner.simps [of G K idCount j ts g c] calls_def)
  qed
qed

lemma calls_add: "calls G (a + b) g = calls G b (calls G a g)"
  by (simp add: calls_def funpow_add add.commute [of a b])

lemma map_upt_block:
  "map f [0..<a] @ map (\<lambda>m. f (a + m)) [0..<b] = map f [0..<a + b]"
proof -
  have "map (\<lambda>m. f (a + m)) [0..<b] = map f (map (\<lambda>m. m + a) [0..<b])"
    by (simp add: add.commute)
  also have "map (\<lambda>m. m + a) [0..<b] = [a..<b + a]"
    by (rule map_add_upt)
  finally have shifted: "map (\<lambda>m. f (a + m)) [0..<b] = map f [a..<a + b]"
    by (simp only: add.commute [of b a])
  have "[0..<a + b] = [0..<a] @ [a..<a + b]"
    by (rule upt_add_eq_append) simp
  then show ?thesis
    by (simp only: shifted map_append)
qed

lemma runTrials_outer_eq:
  "runTrials_outer G K idCount trials i (ts, g, c) =
     (ts @ map (duration K c) [0..<nat (trials - i) * nat idCount],
      calls G (nat (trials - i) * nat idCount) g,
      c + 3 * (nat (trials - i) * nat idCount))"
proof (induction G K idCount trials i "(ts, g, c)" arbitrary: ts g c rule: runTrials_outer.induct)
  case (1 G K idCount trials i ts g c)
  let ?N = "nat idCount"
  show ?case
  proof (cases "i < trials")
    case True
    then have k: "nat (trials - i) = Suc (nat (trials - (i + 1)))"
      by simp
    let ?t = "nat (trials - (i + 1))"
    have inner: "runTrials_inner G K idCount 0 (ts, g, c) =
                   (ts @ map (duration K c) [0..<?N], calls G ?N g, c + 3 * ?N)"
      by (simp add: runTrials_inner_eq)
    have "runTrials_outer G K idCount trials i (ts, g, c) =
            runTrials_outer G K idCount trials (i + 1)
              (ts @ map (duration K c) [0..<?N], calls G ?N g, c + 3 * ?N)"
      using True by (simp add: runTrials_outer.simps [of G K idCount trials i] inner)
    also have "\<dots> = ((ts @ map (duration K c) [0..<?N]) @
                       map (duration K (c + 3 * ?N)) [0..<?t * ?N],
                     calls G (?t * ?N) (calls G ?N g),
                     (c + 3 * ?N) + 3 * (?t * ?N))"
      using "1" [OF True inner] .
    also have "\<dots> = (ts @ map (duration K c) [0..<?N + ?t * ?N],
                     calls G (?N + ?t * ?N) g,
                     c + 3 * (?N + ?t * ?N))"
    proof -
      have sh: "duration K (c + 3 * ?N) = (\<lambda>m. duration K c (?N + m))"
        by (rule ext) (rule duration_shift)
      show ?thesis
        unfolding sh using map_upt_block [of "duration K c" ?N "?t * ?N"]
        by (simp add: calls_add)
    qed
    finally show ?thesis
      unfolding k by simp
  next
    case False
    then show ?thesis
      by (simp add: runTrials_outer.simps [of G K idCount trials i] calls_def)
  qed
qed

lemma runTrials_average_eq:
  "runTrials_average idCount trials ts i acc =
     acc @ map (\<lambda>m. arithmetic_mean (slice ts ((i + int m) * idCount) ((i + int m + 1) * idCount)))
             [0..<nat (trials - i)]"
proof (induction idCount trials ts i acc rule: runTrials_average.induct)
  case (1 idCount trials ts i acc)
  show ?case
  proof (cases "i < trials")
    case True
    then have k: "nat (trials - i) = Suc (nat (trials - (i + 1)))"
      by simp
    let ?avg = "\<lambda>i. arithmetic_mean (slice ts (i * idCount) ((i + 1) * idCount))"
    have "runTrials_average idCount trials ts i acc =
            runTrials_average idCount trials ts (i + 1) (acc @ [?avg i])"
      using True
      by (simp add: runTrials_average.simps [of idCount trials ts i] arithmetic_mean_def Let_def)
    also have "\<dots> = (acc @ [?avg i]) @ map (\<lambda>m. ?avg (i + 1 + int m)) [0..<nat (trials - (i + 1))]"
      using "1" [OF True refl refl] by (simp add: arithmetic_mean_def)
    finally show ?thesis
      unfolding k by (simp add: map_upt_Suc add.assoc del: upt_Suc)
  next
    case False
    then show ?thesis
      by (simp add: runTrials_average.simps [of idCount trials ts i])
  qed
qed

lemma slice_block:
  assumes "length ts = T * nat idCount" and "i < T"
  shows "slice ts (int i * idCount) ((int i + 1) * idCount) =
           take (nat idCount) (drop (i * nat idCount) ts)"
proof (cases "0 < idCount")
  case True
  define N where "N = nat idCount"
  have idc: "idCount = int N" using True by (simp add: N_def)
  have le: "(i + 1) * N \<le> T * N" using assms(2) mult_le_mono1 [of "Suc i" T N] by simp
  have s1: "int i * int N = int (i * N)" by simp
  have s2: "(int i + 1) * int N = int ((i + 1) * N)" by (simp add: algebra_simps)
  have le1: "i * N \<le> T * N" using assms(2) by simp
  have m1: "min (int (i * N)) (int (T * N)) = int (i * N)"
    using le1 by (simp only: min_def of_nat_le_iff if_True)
  have m2: "min (int ((i + 1) * N)) (int (T * N)) = int ((i + 1) * N)"
    using le by (simp only: min_def of_nat_le_iff if_True)
  have n1: "\<not> int (i * N) < 0" "\<not> int ((i + 1) * N) < 0"
    by (simp_all only: not_less of_nat_0_le_iff)
  have len: "int (length ts) = int (T * N)" using assms(1) by (simp add: N_def)
  have diff: "int ((i + 1) * N) - int (i * N) = int N" by (simp add: algebra_simps)
  have "slice ts (int i * int N) ((int i + 1) * int N) = take N (drop (i * N) ts)"
    unfolding slice_def Let_def s1 s2 len
    by (simp only: n1 if_False m1 m2 diff nat_int)
  then show ?thesis by (simp add: idc)
next
  case False
  then have "nat idCount = 0" by simp
  with assms(1) have "ts = []" by simp
  then show ?thesis by (simp add: slice_def)
qed

lemma slice_trial:
  assumes "i < T"
  shows "slice (map (duration K c) [0..<T * nat idCount]) (int i * idCount) ((int i + 1) * idCount) =
           trial_durations K c (nat idCount) i"
proof -
  let ?N = "nat idCount"
  have le: "i * ?N + ?N \<le> T * ?N"
    using assms mult_le_mono1 [of "Suc i" T ?N] by simp
  show ?thesis
    using slice_block [of "map (duration K c) [0..<T * ?N]" T idCount i] assms le
    by (simp add: take_map drop_map take_upt add.commute trial_durations_def)
qed

lemma runTrials_eq:
  "runTrials G K idCount trials (g, c) =
     (map (\<lambda>i. arithmetic_mean (trial_durations K c (nat idCount) i)) [0..<nat trials],
      calls G (nat trials * nat idCount) g,
      c + 3 * (nat trials * nat idCount))"
proof -
  define ts where "ts = map (duration K c) [0..<nat trials * nat idCount]"
  have outer: "runTrials_outer G K idCount trials 0 ([], g, c) =
                 (ts, calls G (nat trials * nat idCount) g, c + 3 * (nat trials * nat idCount))"
    by (simp add: runTrials_outer_eq ts_def)
  have "runTrials_average idCount trials ts 0 [] =
          map (\<lambda>m. arithmetic_mean (slice ts (int m * idCount) ((int m + 1) * idCount)))
            [0..<nat trials]"
    by (simp add: runTrials_average_eq)
  also have "\<dots> = map (\<lambda>i. arithmetic_mean (trial_durations K c (nat idCount) i)) [0..<nat trials]"
    unfolding ts_def by (rule map_cong [OF refl]) (simp add: slice_trial)
  finally show ?thesis
    by (simp add: runTrials_def outer)
qed

lemma trial_durations_empty: "trial_durations K c 0 i = []"
  by (simp add: trial_durations_def)

lemma trial_durations_length: "length (trial_durations K c N i) = N"
  by (simp add: trial_durations_def)

lemma arithmetic_mean_empty: "arithmetic_mean [] = NaN"
  by (simp add: arithmetic_mean_def jsdiv_def is_inf_def is_zero_def)

section \<open>Properties of the report\<close>

lemma printComparisonTable_loop_rows:
  assumes "length normalTimes \<le> length cachedTimes"
  shows "printComparisonTable_loop E normalTimes cachedTimes i table =
           Inr (table @ map (\<lambda>k. table_row E k (normalTimes ! k) (cachedTimes ! k))
                          [i..<length normalTimes])"
  using assms
proof (induction E normalTimes cachedTimes i table rule: printComparisonTable_loop.induct)
  case (1 E normalTimes cachedTimes i table)
  show ?case
  proof (cases "i < length normalTimes")
    case True
    then have ix: "index cachedTimes i = Some (cachedTimes ! i)"
      using "1.prems" by (simp add: index_def)
    have "printComparisonTable_loop E normalTimes cachedTimes i table =
            printComparisonTable_loop E normalTimes cachedTimes (i + 1)
              (table @ [table_row E i (normalTimes ! i) (cachedTimes ! i)])"
      using True
      by (simp add: printComparisonTable_loop.simps [of E normalTimes cachedTimes i table]
          ix table_row_def Let_def)
    also have "\<dots> = Inr ((table @ [table_row E i (normalTimes ! i) (cachedTimes ! i)]) @
                          map (\<lambda>k. table_row E k (normalTimes ! k) (cachedTimes ! k))
                            [i + 1..<length normalTimes])"
      using "1.IH" [OF True refl refl refl ix "1.prems"] by (simp add: table_row_def ix)
    finally show ?thesis
      using True by (simp add: upt_conv_Cons)
  next
    case False
    then show ?thesis
      by (simp add: printComparisonTable_loop.simps [of E normalTimes cachedTimes i table])
  qed
qed

lemma printComparisonTable_loop_throws:
  assumes "length cachedTimes < length normalTimes" and "i \<le> length cachedTimes"
  shows "printComparisonTable_loop E normalTimes cachedTimes i table = Inl TypeError"
  using assms
proof (induction E normalTimes cachedTimes i table rule: printComparisonTable_loop.induct)
  case (1 E normalTimes cachedTimes i table)
  have lt: "i < length normalTimes" using "1.prems" by simp
  show ?case
  proof (cases "i < length cachedTimes")
    case True
    then have ix: "index cachedTimes i = Some (cachedTimes ! i)"
      by (simp add: index_def)
    have "printComparisonTable_loop E normalTimes cachedTimes i table =
            printComparisonTable_loop E normalTimes cachedTimes (i + 1)
              (table @ [table_row E i (normalTimes ! i) (cachedTimes ! i)])"
      using lt
      by (simp add: printComparisonTable_loop.simps [of E normalTimes cachedTimes i table]
          ix table_row_def Let_def)
    also have "\<dots> = Inl TypeError"
      using "1.IH" [OF lt refl refl refl ix "1.prems"(1)] True by (simp add: table_row_def ix)
    finally show ?thesis .
  next
    case False
    then have "index cachedTimes i = None" by (simp add: index_def)
    then show ?thesis
      using lt
      by (simp add: printComparisonTable_loop.simps [of E normalTimes cachedTimes i table])
  qed
qed

lemma printComparisonTable_rows:
  "length normalTimes \<le> length cachedTimes \<Longrightarrow>
   printComparisonTable E normalTimes cachedTimes =
     Inr (map (\<lambda>k. table_row E k (normalTimes ! k) (cachedTimes ! k)) [0..<length normalTimes])"
  by (simp add: printComparisonTable_def printComparisonTable_loop_rows)

lemma printComparisonTable_throws:
  "length cachedTimes < length normalTimes \<Longrightarrow>
   printComparisonTable E normalTimes cachedTimes = Inl TypeError"
  by (simp add: printComparisonTable_def printComparisonTable_loop_throws)

section \<open>Trial means are finite\<close>

lemma double_nonneg:
  assumes "0 \<le> x" and "nearest x < 2 powi 1024"
  shows "double x = Fin (nearest x)"
  using assms by (simp add: double_def Let_def)

lemma nearest_two_powi_45: "nearest (2 powi 45) = 2 powi 45"
  using nearest_of_int [of "2 ^ 45"] by simp

lemma nearest_two_powi_55: "nearest (2 powi 55) = 2 powi 55"
  using nearest_normal [of 55 "2 powi 55"] by (simp add: round_half_even_def)

lemma nearest_two_powi_111: "nearest (2 powi 111) = 2 powi 111"
  using nearest_normal [of 111 "2 powi 111"] by (simp add: round_half_even_def)

lemma nearest_stall: "nearest (2 powi 111 + 2 powi 55) = 2 powi 111"
  using nearest_normal [of 111 "2 powi 111 + 2 powi 55"] by (simp add: round_half_even_def)

lemma elapsed_mono: "c \<le> c' \<Longrightarrow> elapsed K c \<le> elapsed K c'"
  by (rule lift_Suc_mono_le) simp_all

lemma counter_mono: "c \<le> c' \<Longrightarrow> counter K c \<le> counter K c'"
  using elapsed_mono [of c c' K] by (simp add: counter_def min_le_iff_disj)

lemma counter_bound: "real (counter K c) / 10 ^ 6 \<le> 2 powi 45"
proof -
  have "counter K c \<le> 2 ^ 64 - 1" by (simp add: counter_def)
  then have "real (counter K c) \<le> real (2 ^ 64 - 1)" by (simp only: of_nat_le_iff)
  then show ?thesis by simp
qed

lemma reading_eq:
  "reading K c = Fin (nearest (real (counter K c) / 10 ^ 6))"
  "0 \<le> nearest (real (counter K c) / 10 ^ 6)"
  "nearest (real (counter K c) / 10 ^ 6) \<le> 2 powi 45"
proof -
  let ?x = "real (counter K c) / 10 ^ 6"
  have nn: "0 \<le> ?x" by simp
  have le: "nearest ?x \<le> 2 powi 45"
    using nearest_mono [OF counter_bound [of K c]] by (simp only: nearest_two_powi_45)
  have "(2::real) powi 45 < 2 powi 1024"
    by (intro power_int_strict_increasing) simp_all
  with le have "nearest ?x < 2 powi 1024" by linarith
  then show "reading K c = Fin (nearest ?x)"
    unfolding reading_def using nn by (rule double_nonneg [rotated])
  show "0 \<le> nearest ?x" using nn by (rule nearest_nonneg)
  show "nearest ?x \<le> 2 powi 45" by (rule le)
qed

lemma reading_mono:
  assumes "c \<le> c'"
  shows "nearest (real (counter K c) / 10 ^ 6) \<le> nearest (real (counter K c') / 10 ^ 6)"
  using counter_mono [OF assms, of K] by (intro nearest_mono divide_right_mono) simp_all

lemma jssub_finite:
  assumes "0 \<le> s" and "s \<le> e" and "e \<le> B" and "nearest B = B" and "B < 2 powi 1024"
  shows "\<exists>d. jssub (Fin e) (Fin s) = Fin d \<and> 0 \<le> d \<and> d \<le> B"
proof (cases "s = 0")
  case True
  then show ?thesis
    using assms by (auto simp: jssub_def jsneg_def jsadd_def is_inf_def is_zero_def)
next
  case False
  show ?thesis
  proof (cases "e = s")
    case True
    then show ?thesis
      using False assms
      by (auto simp: jssub_def jsneg_def jsadd_def is_inf_def is_zero_def mathematical_value_def)
  next
    case ne: False
    have "\<exists>r. double (e - s) = Fin r \<and> 0 \<le> r \<and> r \<le> nearest B"
      using assms by (intro double_bounded) simp_all
    then show ?thesis
      using False ne assms
      by (auto simp: jssub_def jsneg_def jsadd_def is_inf_def is_zero_def mathematical_value_def)
  qed
qed

lemma jsmul_finite:
  assumes "0 \<le> d" and "d \<le> B" and "0 \<le> k" and "B * k \<le> B'" and "nearest B' = B'"
    and "B' < 2 powi 1024"
  shows "\<exists>p. jsmul (Fin d) (Fin k) = Fin p \<and> 0 \<le> p \<and> p \<le> B'"
proof (cases "d = 0 \<or> k = 0")
  case True
  have "0 \<le> B'" using assms by (metis mult_nonneg_nonneg order_trans)
  with True show ?thesis
    using assms(1,3)
    by (auto simp: jsmul_def is_inf_def is_zero_def signed_zero_def negative_def)
next
  case False
  have "d * k \<le> B * k" using assms(2,3) by (rule mult_right_mono)
  then have "d * k \<le> B'" using assms(4) by simp
  then have "\<exists>r. double (d * k) = Fin r \<and> 0 \<le> r \<and> r \<le> nearest B'"
    using assms by (intro double_bounded) simp_all
  then show ?thesis
    using False assms
    by (auto simp: jsmul_def is_inf_def is_zero_def mathematical_value_def)
qed

lemma jsadd_finite:
  assumes "0 \<le> a" and "a \<le> A" and "0 \<le> d" and "d \<le> D" and "D \<le> A"
    and "nearest (A + D) = A" and "A < 2 powi 1024"
  shows "\<exists>r. jsadd (Fin a) (Fin d) = Fin r \<and> 0 \<le> r \<and> r \<le> A"
proof (cases "a = 0 \<or> d = 0")
  case True
  then show ?thesis
    using assms by (auto simp: jsadd_def is_inf_def is_zero_def)
next
  case False
  then have pos: "0 < a + d" using assms(1,3) by auto
  have "\<exists>r. double (a + d) = Fin r \<and> 0 \<le> r \<and> r \<le> nearest (A + D)"
    using assms by (intro double_bounded) simp_all
  then show ?thesis
    using False pos assms
    by (auto simp: jsadd_def is_inf_def is_zero_def mathematical_value_def)
qed

lemma foldl_jsadd_finite:
  assumes "0 \<le> a" and "a \<le> A" and "\<forall>x \<in> set ds. \<exists>d. x = Fin d \<and> 0 \<le> d \<and> d \<le> D"
    and "D \<le> A" and "nearest (A + D) = A" and "A < 2 powi 1024"
  shows "\<exists>r. foldl jsadd (Fin a) ds = Fin r \<and> 0 \<le> r \<and> r \<le> A"
  using assms(1,2,3)
proof (induction ds arbitrary: a)
  case Nil
  then show ?case by simp
next
  case (Cons x ds)
  then obtain d where d: "x = Fin d" "0 \<le> d" "d \<le> D" by auto
  obtain r where r: "jsadd (Fin a) (Fin d) = Fin r" "0 \<le> r" "r \<le> A"
    using jsadd_finite [OF Cons.prems(1,2) d(2,3) assms(4,5,6)] by auto
  show ?case
    using Cons.IH [OF r(2,3)] Cons.prems(3) by (simp add: d(1) r(1))
qed

lemma jsdiv_finite:
  assumes "0 \<le> s" and "s \<le> A" and "0 < N" and "nearest A = A" and "A < 2 powi 1024"
  shows "\<exists>r. jsdiv (Fin s) (Fin (real N)) = Fin r \<and> 0 \<le> r \<and> r \<le> A"
proof (cases "s = 0")
  case True
  then show ?thesis
    using assms
    by (auto simp: jsdiv_def is_inf_def is_zero_def signed_zero_def negative_def)
next
  case False
  have "1 \<le> real N" using assms(3) by simp
  then have "s * 1 \<le> s * real N" using assms(1) by (intro mult_left_mono)
  then have "s / real N \<le> s" using assms(3) by (simp add: divide_le_eq)
  then have "s / real N \<le> A" using assms(2) by simp
  then have "\<exists>r. double (s / real N) = Fin r \<and> 0 \<le> r \<and> r \<le> nearest A"
    using assms by (intro double_bounded) simp_all
  then show ?thesis
    using False assms
    by (auto simp: jsdiv_def is_inf_def is_zero_def mathematical_value_def)
qed

lemma two_powi_below_overflow: "n < 1024 \<Longrightarrow> (2::real) powi n < 2 powi 1024"
  by (intro power_int_strict_increasing) simp_all

lemma duration_finite: "\<exists>d. duration K c m = Fin d \<and> 0 \<le> d \<and> d \<le> 2 powi 55"
proof -
  let ?s = "nearest (real (counter K (c + 3 * m)) / 10 ^ 6)"
  let ?e = "nearest (real (counter K (c + 3 * m + 2)) / 10 ^ 6)"
  have "\<exists>d. jssub (Fin ?e) (Fin ?s) = Fin d \<and> 0 \<le> d \<and> d \<le> 2 powi 45"
    using reading_eq(2) [of K "c + 3 * m"] reading_mono [of "c + 3 * m" "c + 3 * m + 2" K]
      reading_eq(3) [of K "c + 3 * m + 2"] nearest_two_powi_45 two_powi_below_overflow [of 45]
    by (intro jssub_finite) simp_all
  then obtain d where d: "jssub (Fin ?e) (Fin ?s) = Fin d" "0 \<le> d" "d \<le> 2 powi 45"
    by auto
  have mul: "\<exists>p. jsmul (Fin d) (Fin 1000) = Fin p \<and> 0 \<le> p \<and> p \<le> 2 powi 55"
    using d(2,3) nearest_two_powi_55 two_powi_below_overflow [of 55]
    by (intro jsmul_finite [where B = "2 powi 45"]) simp_all
  show ?thesis
    unfolding duration_def reading_eq(1) d(1) MICROSECONDS_CONVERSION_def by (rule mul)
qed

lemma arithmetic_mean_finite:
  assumes "0 < N"
  shows "\<exists>r. arithmetic_mean (trial_durations K c N i) = Fin r \<and> 0 \<le> r"
proof -
  let ?ds = "trial_durations K c N i"
  have each: "\<forall>x \<in> set ?ds. \<exists>d. x = Fin d \<and> 0 \<le> d \<and> d \<le> 2 powi 55"
    using duration_finite [of K c] by (auto simp: trial_durations_def)
  have "\<exists>r. foldl jsadd (Fin 0) ?ds = Fin r \<and> 0 \<le> r \<and> r \<le> 2 powi 111"
    using each nearest_stall two_powi_below_overflow [of 111]
    by (intro foldl_jsadd_finite [where D = "2 powi 55"]) simp_all
  then obtain s where s: "foldl jsadd (Fin 0) ?ds = Fin s" "0 \<le> s" "s \<le> 2 powi 111"
    by auto
  have "\<exists>r. jsdiv (Fin s) (Fin (real N)) = Fin r \<and> 0 \<le> r \<and> r \<le> 2 powi 111"
    using s(2,3) assms nearest_two_powi_111 two_powi_below_overflow [of 111]
    by (intro jsdiv_finite) simp_all
  then show ?thesis
    by (auto simp: arithmetic_mean_def s(1) trial_durations_length)
qed

section \<open>Evaluating the arithmetic\<close>

lemma jsadd_zero_left: "jsadd (Fin 0) (Fin b) = Fin b"
  by (simp add: jsadd_def is_inf_def is_zero_def)




lemma jsdiv_Fin: "a \<noteq> 0 \<Longrightarrow> b \<noteq> 0 \<Longrightarrow> jsdiv (Fin a) (Fin b) = double (a / b)"
  by (simp add: jsdiv_def is_inf_def is_zero_def mathematical_value_def)






lemma toFixed_examples:
  "toFixed E (Fin 1) 2 = ''1.00''" "toFixed E (Fin 2) 2 = ''2.00''"
  "toFixed E (Fin 4) 2 = ''4.00''" "toFixed E (Fin 5) 2 = ''5.00''"
  "toFixed E (Fin 7) 2 = ''7.00''" "toFixed E (Fin 8) 2 = ''8.00''"
  "toFixed E (Fin 9) 2 = ''9.00''" "toFixed E (Fin 10) 2 = ''10.00''"
  "toFixed E (Fin 93) 2 = ''93.00''"
  "toFixed E (Fin (6544293208522751 / 2 ^ 49)) 2 = ''11.62''"
  "toFixed E (Fin (93 / 8)) 2 = ''11.63''"
  by (simp_all add: toFixed_def mathematical_value_def decimal.simps digit_def)













lemma runExperiment_no_trials:
  assumes "trials \<le> 0"
  shows "runExperiment U K E poolSize idCount trials (n, c) =
           Inr [Log ''Running trials for Normal ID generation...'',
                Log ''Running trials for Cached ID generation...'',
                Table []]"
  using assms
  by (simp add: runExperiment_def CachedIdGenerator_new_eq runTrials_eq printComparisonTable_rows)

lemma double_zero: "double 0 = Fin 0"
  by (simp add: double_def)

lemma reading_still: "reading (\<lambda>k. 0) c = Fin 0"
proof -
  have "elapsed (\<lambda>k. 0) c = 0" by (induction c) simp_all
  then show ?thesis by (simp add: reading_def counter_def double_zero)
qed

lemma duration_still: "duration (\<lambda>k. 0) c m = Fin 0"
  by (simp add: duration_def reading_still jssub_def jsneg_def jsadd_def jsmul_def is_inf_def
      is_zero_def signed_zero_def negative_def MICROSECONDS_CONVERSION_def)



lemma mean_still: "arithmetic_mean [Fin 0, Fin 0] = Fin 0"
  by (simp add: arithmetic_mean_def jsadd_zero_left jsdiv_def is_inf_def is_zero_def
      signed_zero_def negative_def)

section \<open>Claims about the pooled generator\<close>

text \<open>
  Claim C1. A call of \<open>generateId\<close> that finds the pool empty regenerates the whole pool:
  the pool then holds \<open>ID_POOL_SIZE\<close> identifiers, all drawn during this call (the draws
  numbered \<open>n\<close> to \<open>n + ID_POOL_SIZE - 1\<close>, where \<open>n\<close> draws had been made before).
  The identifier returned is the next draw after those, not an element of the new pool:
  when the generator yields distinct values it does not occur in the pool.
\<close>

theorem generateId_empty_pool_regenerates:
  assumes "idPool g = []"
  shows "generateId U (g, n) =
           (U (n + nat (ID_POOL_SIZE g)),
            (g\<lparr>idPool := map U [n..<n + nat (ID_POOL_SIZE g)]\<rparr>, Suc (n + nat (ID_POOL_SIZE g))))
         \<and> length (idPool (fst (snd (generateId U (g, n))))) = nat (ID_POOL_SIZE g)
         \<and> (inj U \<longrightarrow> fst (generateId U (g, n)) \<notin> set (idPool (fst (snd (generateId U (g, n))))))"
  using assms fresh_not_pooled [of U n "nat (ID_POOL_SIZE g)"]
  by (simp add: generateId_exhausted)

text \<open>C1 at a concrete input: capacity 2, empty pool, no identifier drawn yet.\<close>

theorem generateId_empty_pool_regenerates_witness:
  "idPool \<lparr>ID_POOL_SIZE = 2, idPool = []\<rparr> = [] \<and> inj sample_uuid \<and>
   generateId sample_uuid (\<lparr>ID_POOL_SIZE = 2, idPool = []\<rparr>, 0) =
     (''uuu'', (\<lparr>ID_POOL_SIZE = 2, idPool = [''u'', ''uu'']\<rparr>, 3)) \<and>
   ''uuu'' \<notin> set [''u'', ''uu'']"
  using generateId_empty_pool_regenerates [of "\<lparr>ID_POOL_SIZE = 2, idPool = []\<rparr>" sample_uuid 0] sample_uuid_inj
  by (simp add: sample_uuid_def upt_rec numeral_eq_Suc)

text \<open>
  Claim C2 says that the call following the one that observed exhaustion does not get
  an element popped from the regenerated pool. It does: a generator of capacity 2 is
  exhausted by two calls, the third call regenerates the pool and returns a direct
  draw, and the fourth call returns the last element of the pool the third call built.
\<close>

theorem call_after_exhaustion_pops_regenerated_pool:
  "snd (generateIds sample_uuid 3 (CachedIdGenerator_new sample_uuid 2 0)) =
     (\<lparr>ID_POOL_SIZE = 2, idPool = [''uuu'', ''uuuu'']\<rparr>, 5) \<and>
   fst (generateId sample_uuid (\<lparr>ID_POOL_SIZE = 2, idPool = [''uuu'', ''uuuu'']\<rparr>, 5)) = ''uuuu'' \<and>
   ''uuuu'' \<in> set [''uuu'', ''uuuu'']"
  by (simp add: CachedIdGenerator_new_eq generateId_def pop_def falsy_def regenerateIdPool_eq
      uuidv4_def sample_uuid_def upt_rec numeral_eq_Suc)

text \<open>
  Claim C2, amended. The regeneration started by a call that finds the pool empty has
  run to completion when that call returns. With a positive capacity and a generator
  of non-empty strings, the next call pops the last element of the regenerated pool and
  draws nothing from the generator.
\<close>

theorem regeneration_completes_within_call:
  assumes "idPool g = []" and "0 < ID_POOL_SIZE g" and "\<forall>k. U k \<noteq> []"
  shows "idPool (fst (snd (generateId U (g, n)))) = map U [n..<n + nat (ID_POOL_SIZE g)] \<and>
         generateId U (snd (generateId U (g, n))) =
           (last (idPool (fst (snd (generateId U (g, n))))),
            (g\<lparr>idPool := butlast (idPool (fst (snd (generateId U (g, n)))))\<rparr>,
             Suc (n + nat (ID_POOL_SIZE g)))) \<and>
         fst (generateId U (snd (generateId U (g, n)))) \<in>
           set (idPool (fst (snd (generateId U (g, n)))))"
proof -
  define pool where "pool = map U [n..<n + nat (ID_POOL_SIZE g)]"
  have first: "generateId U (g, n) =
                 (U (n + nat (ID_POOL_SIZE g)), (g\<lparr>idPool := pool\<rparr>, Suc (n + nat (ID_POOL_SIZE g))))"
    using assms(1) by (simp add: generateId_exhausted pool_def)
  have ne: "pool \<noteq> []" using assms(2) by (simp add: pool_def)
  then have mem: "last pool \<in> set pool" by (rule last_in_set)
  then have l: "last pool \<noteq> []" using assms(3) unfolding pool_def by (metis imageE list.set_map)
  have second: "generateId U (g\<lparr>idPool := pool\<rparr>, Suc (n + nat (ID_POOL_SIZE g))) =
                  (last pool, (g\<lparr>idPool := butlast pool\<rparr>, Suc (n + nat (ID_POOL_SIZE g))))"
    using generateId_pooled [of "g\<lparr>idPool := pool\<rparr>" U] ne l by simp
  have "idPool (fst (snd (generateId U (g, n)))) = pool"
    by (simp add: first)
  moreover have "generateId U (snd (generateId U (g, n))) =
                   (last pool, (g\<lparr>idPool := butlast pool\<rparr>, Suc (n + nat (ID_POOL_SIZE g))))"
    by (simp add: first second)
  ultimately show ?thesis using mem by (simp add: pool_def [symmetric])
qed

text \<open>The amended C2 at a concrete input: capacity 2, empty pool.\<close>

theorem regeneration_completes_within_call_witness:
  "idPool \<lparr>ID_POOL_SIZE = 2, idPool = []\<rparr> = [] \<and> (0::int) < ID_POOL_SIZE \<lparr>ID_POOL_SIZE = 2, idPool = []\<rparr> \<and>
   (\<forall>k. sample_uuid k \<noteq> []) \<and>
   generateId sample_uuid (snd (generateId sample_uuid (\<lparr>ID_POOL_SIZE = 2, idPool = []\<rparr>, 0))) =
     (''uu'', (\<lparr>ID_POOL_SIZE = 2, idPool = [''u'']\<rparr>, 3))"
  using regeneration_completes_within_call [of "\<lparr>ID_POOL_SIZE = 2, idPool = []\<rparr>" sample_uuid 0] sample_uuid_nonempty
  by (simp add: sample_uuid_def upt_rec numeral_eq_Suc)

text \<open>
  Claim C3. In every state reachable from the constructor by calls of \<open>generateId\<close>,
  with a generator of non-empty strings: the pool holds at most \<open>capacity\<close> elements,
  before and after a further call; a call on a non-empty pool returns the last element
  and removes exactly that one; a call on an empty pool leaves a pool of exactly
  \<open>capacity\<close> elements.
\<close>

theorem pool_size_invariant:
  assumes "\<forall>k. U k \<noteq> []" and "reachable U capacity s"
  shows "length (idPool (fst s)) \<le> nat capacity \<and>
         length (idPool (fst (snd (generateId U s)))) \<le> nat capacity \<and>
         (idPool (fst s) \<noteq> [] \<longrightarrow>
            fst (generateId U s) = last (idPool (fst s)) \<and>
            idPool (fst (snd (generateId U s))) = butlast (idPool (fst s)) \<and>
            Suc (length (idPool (fst (snd (generateId U s))))) = length (idPool (fst s))) \<and>
         (idPool (fst s) = [] \<longrightarrow>
            length (idPool (fst (snd (generateId U s)))) = nat capacity)"
proof -
  obtain g n where s: "s = (g, n)" by (cases s)
  have inv: "ID_POOL_SIZE g = capacity" "length (idPool g) \<le> nat capacity" "[] \<notin> set (idPool g)"
    using reachable_inv [OF assms] by (simp_all add: s)
  have inv': "length (idPool (fst (snd (generateId U s)))) \<le> nat capacity"
    using reachable_inv [OF assms(1) reachable.called [OF assms(2)]] by simp
  show ?thesis
  proof (cases "idPool g = []")
    case True
    then show ?thesis using inv inv' by (simp add: s generateId_exhausted)
  next
    case False
    then have "last (idPool g) \<noteq> []" using inv(3) by (metis last_in_set)
    with False show ?thesis using inv inv' by (simp add: s generateId_pooled)
  qed
qed

text \<open>C3 at the state the constructor leaves for capacity 2.\<close>

theorem pool_size_invariant_witness:
  "(\<forall>k. sample_uuid k \<noteq> []) \<and> reachable sample_uuid 2 (CachedIdGenerator_new sample_uuid 2 0) \<and>
   length (idPool (fst (CachedIdGenerator_new sample_uuid 2 0))) \<le> nat 2 \<and>
   idPool (fst (CachedIdGenerator_new sample_uuid 2 0)) \<noteq> [] \<and>
   Suc (length (idPool (fst (snd (generateId sample_uuid (CachedIdGenerator_new sample_uuid 2 0)))))) =
     length (idPool (fst (CachedIdGenerator_new sample_uuid 2 0)))"
  using pool_size_invariant [of sample_uuid 2 "CachedIdGenerator_new sample_uuid 2 0"]
        sample_uuid_nonempty reachable.constructed [of sample_uuid 2 0]
  by (simp add: CachedIdGenerator_new_eq)

text \<open>
  Claim C4. For a capacity \<open>C > 0\<close> and a generator of distinct non-empty strings, the
  first \<open>C\<close> calls on a freshly constructed generator return the \<open>C\<close> identifiers of
  the initial pool, last one first; they are pairwise distinct and no identifier is
  drawn from the generator meanwhile (so nothing was regenerated). Call \<open>C + 1\<close>
  returns a direct draw, made after the \<open>C\<close> draws of the regeneration it triggers; it
  differs from every identifier drawn before.
\<close>

theorem fresh_generator_first_calls:
  assumes "0 < C" and "inj U" and "\<forall>k. U k \<noteq> []"
  shows "fst (generateIds U (nat C) (CachedIdGenerator_new U C n)) =
           rev (idPool (fst (CachedIdGenerator_new U C n))) \<and>
         length (fst (generateIds U (nat C) (CachedIdGenerator_new U C n))) = nat C \<and>
         distinct (fst (generateIds U (nat C) (CachedIdGenerator_new U C n))) \<and>
         snd (snd (generateIds U (nat C) (CachedIdGenerator_new U C n))) =
           snd (CachedIdGenerator_new U C n) \<and>
         fst (generateIds U (Suc (nat C)) (CachedIdGenerator_new U C n)) =
           fst (generateIds U (nat C) (CachedIdGenerator_new U C n)) @ [U (n + 2 * nat C)] \<and>
         snd (generateIds U (Suc (nat C)) (CachedIdGenerator_new U C n)) =
           (\<lparr>ID_POOL_SIZE = C, idPool = map U [n + nat C..<n + 2 * nat C]\<rparr>, Suc (n + 2 * nat C)) \<and>
         U (n + 2 * nat C) \<notin> set (map U [n..<n + 2 * nat C])"
proof -
  let ?g = "\<lparr>ID_POOL_SIZE = C, idPool = map U [n..<n + nat C]\<rparr>"
  have nonempty: "[] \<notin> set (idPool ?g)"
    using assms(3) by (simp add: image_iff) metis
  have run: "generateIds U (nat C) (?g, n + nat C) =
               (rev (map U [n..<n + nat C]), (\<lparr>ID_POOL_SIZE = C, idPool = []\<rparr>, n + nat C))"
    using generateIds_pooled [OF nonempty, of "nat C" U "n + nat C"] by simp
  have last_call: "generateId U (\<lparr>ID_POOL_SIZE = C, idPool = []\<rparr>, n + nat C) =
                     (U (n + 2 * nat C),
                      (\<lparr>ID_POOL_SIZE = C, idPool = map U [n + nat C..<n + 2 * nat C]\<rparr>,
                       Suc (n + 2 * nat C)))"
    using generateId_exhausted [of "\<lparr>ID_POOL_SIZE = C, idPool = []\<rparr>" U "n + nat C"]
    by (simp add: mult_2 add.assoc)
  have dist: "distinct (map U [n..<n + nat C])"
    using assms(2) by (simp add: distinct_map inj_on_def inj_def)
  have fresh: "U (n + 2 * nat C) \<notin> set (map U [n..<n + 2 * nat C])"
    using fresh_not_pooled [OF assms(2), of n "2 * nat C"] .
  show ?thesis
    unfolding generateIds_Suc_right
    using dist fresh by (simp add: CachedIdGenerator_new_eq run last_call)
qed

text \<open>C4 at capacity 2.\<close>

theorem fresh_generator_first_calls_witness:
  "(0::int) < 2 \<and> inj sample_uuid \<and> (\<forall>k. sample_uuid k \<noteq> []) \<and>
   fst (generateIds sample_uuid (Suc (nat 2)) (CachedIdGenerator_new sample_uuid 2 0)) =
     [''uu'', ''u'', ''uuuuu''] \<and>
   snd (generateIds sample_uuid (Suc (nat 2)) (CachedIdGenerator_new sample_uuid 2 0)) =
     (\<lparr>ID_POOL_SIZE = 2, idPool = [''uuu'', ''uuuu'']\<rparr>, 5)"
  using fresh_generator_first_calls [of 2 sample_uuid 0] sample_uuid_inj sample_uuid_nonempty
  by (simp add: CachedIdGenerator_new_eq sample_uuid_def upt_rec numeral_eq_Suc)

text \<open>
  Claim C9. \<open>generateId\<close> treats a falsy popped value as exhaustion: when the pool is
  empty or its last element is the empty string, the pool is replaced by a regenerated
  one (the popped element is gone with the rest) and a direct draw is returned. In the
  only other case the popped element is returned, and it is not the empty string. So an
  empty string returned by \<open>generateId\<close> is always the direct draw, never a stored
  element.
\<close>

theorem generateId_falsy_pop:
  "(idPool g = [] \<or> last (idPool g) = [] \<longrightarrow>
      generateId U (g, n) =
        (U (n + nat (ID_POOL_SIZE g)),
         (g\<lparr>idPool := map U [n..<n + nat (ID_POOL_SIZE g)]\<rparr>, Suc (n + nat (ID_POOL_SIZE g))))) \<and>
   (idPool g \<noteq> [] \<and> last (idPool g) \<noteq> [] \<longrightarrow>
      generateId U (g, n) = (last (idPool g), (g\<lparr>idPool := butlast (idPool g)\<rparr>, n))) \<and>
   (fst (generateId U (g, n)) = [] \<longrightarrow>
      fst (generateId U (g, n)) = U (n + nat (ID_POOL_SIZE g)) \<and>
      snd (snd (generateId U (g, n))) = Suc (n + nat (ID_POOL_SIZE g)))"
proof (cases "idPool g = [] \<or> last (idPool g) = []")
  case True
  then show ?thesis using generateId_exhausted [OF True, of U n] by auto
next
  case False
  then show ?thesis using generateId_pooled [of g U n] by auto
qed

text \<open>C9 at two concrete pools: one that ends with the empty string, one that does not.\<close>

theorem generateId_falsy_pop_witness:
  "last (idPool \<lparr>ID_POOL_SIZE = 1, idPool = [''x'', '''']\<rparr>) = [] \<and>
   generateId sample_uuid (\<lparr>ID_POOL_SIZE = 1, idPool = [''x'', '''']\<rparr>, 0) =
     (''uu'', (\<lparr>ID_POOL_SIZE = 1, idPool = [''u'']\<rparr>, 2)) \<and>
   generateId sample_uuid (\<lparr>ID_POOL_SIZE = 1, idPool = ['''', ''x'']\<rparr>, 0) =
     (''x'', (\<lparr>ID_POOL_SIZE = 1, idPool = ['''']\<rparr>, 0))"
  using generateId_falsy_pop [of "\<lparr>ID_POOL_SIZE = 1, idPool = [''x'', '''']\<rparr>" sample_uuid 0]
        generateId_falsy_pop [of "\<lparr>ID_POOL_SIZE = 1, idPool = ['''', ''x'']\<rparr>" sample_uuid 0]
  by (simp add: sample_uuid_def)

section \<open>Claims about the benchmark and the report\<close>






text \<open>
  Claim C7 says that a non-positive capacity, trial count or number of identifiers per
  trial is rejected with an error. With all three equal to 0 the constructor returns a
  generator with an empty pool, \<open>runTrials\<close> returns the empty list, and
  \<open>runExperiment\<close> prints its two lines and an empty table.
\<close>

theorem non_positive_configuration_not_rejected:
  "CachedIdGenerator_new sample_uuid 0 0 = (\<lparr>ID_POOL_SIZE = 0, idPool = []\<rparr>, 0) \<and>
   runTrials (generateId sample_uuid) sample_clock 0 0 (CachedIdGenerator_new sample_uuid 0 0, 0) =
     ([], (\<lparr>ID_POOL_SIZE = 0, idPool = []\<rparr>, 0), 0) \<and>
   runExperiment sample_uuid sample_clock sample_exponent 0 0 0 (0, 0) =
     Inr [Log ''Running trials for Normal ID generation...'',
          Log ''Running trials for Cached ID generation...'',
          Table []]"
  by (simp add: CachedIdGenerator_new_eq runTrials_eq runExperiment_no_trials calls_def)

text \<open>
  Claim C7, amended. Nothing is validated. A capacity that is not positive gives a
  generator whose pool is empty; a trial count that is not positive makes \<open>runTrials\<close>
  return the empty list without calling the generator or reading the clock, and makes
  \<open>runExperiment\<close> print an empty table; a number of identifiers per trial that is not
  positive gives NaN as the mean of every trial. No exception is raised in any of
  these cases.
\<close>

theorem non_positive_configuration_accepted:
  "(capacity \<le> 0 \<longrightarrow>
      CachedIdGenerator_new U capacity n = (\<lparr>ID_POOL_SIZE = capacity, idPool = []\<rparr>, n)) \<and>
   (trials \<le> 0 \<longrightarrow>
      runTrials G K idCount trials (g, c) = ([], g, c) \<and>
      runExperiment U K E capacity idCount trials (n, c) =
        Inr [Log ''Running trials for Normal ID generation...'',
             Log ''Running trials for Cached ID generation...'',
             Table []]) \<and>
   (idCount \<le> 0 \<longrightarrow>
      runTrials G K idCount trials (g, c) = (replicate (nat trials) NaN, g, c))"
  by (simp add: CachedIdGenerator_new_eq runTrials_eq runExperiment_no_trials calls_def
      trial_durations_empty arithmetic_mean_empty map_replicate_const)

text \<open>The amended C7 at capacity -1, at -1 trials, and at -1 identifiers per trial.\<close>

theorem non_positive_configuration_accepted_witness:
  "(-1::int) \<le> 0 \<and>
   CachedIdGenerator_new sample_uuid (-1) 0 = (\<lparr>ID_POOL_SIZE = -1, idPool = []\<rparr>, 0) \<and>
   runTrials (NormalIdGenerator_generateId sample_uuid) sample_clock 2 (-1) (0, 0) = ([], 0, 0) \<and>
   runExperiment sample_uuid sample_clock sample_exponent (-1) 2 (-1) (0, 0) =
     Inr [Log ''Running trials for Normal ID generation...'',
          Log ''Running trials for Cached ID generation...'',
          Table []] \<and>
   runTrials (NormalIdGenerator_generateId sample_uuid) sample_clock (-1) 2 (0, 0) =
     ([NaN, NaN], 0, 0)"
  using non_positive_configuration_accepted
          [of "-1" sample_uuid 0 "-1" "NormalIdGenerator_generateId sample_uuid"
              sample_clock 2 0 0 sample_exponent]
        non_positive_configuration_accepted
          [of "-1" sample_uuid 0 2 "NormalIdGenerator_generateId sample_uuid"
              sample_clock "-1" 0 0 sample_exponent]
  by (simp add: numeral_eq_Suc)

text \<open>
  Claim C8. With no identifier per trial, the mean of every trial is NaN (the quotient
  of 0 by 0). With at least one identifier per trial every mean is a finite number, so
  NaN never stands for a measured trial; in particular it differs from the mean 0 of a
  trial whose calls all took no time.
\<close>

theorem no_identifiers_mean_is_NaN:
  "(idCount = 0 \<longrightarrow>
      fst (runTrials G K idCount trials (g, c)) = replicate (nat trials) NaN) \<and>
   (0 < idCount \<longrightarrow>
      (\<forall>x \<in> set (fst (runTrials G K idCount trials (g, c))). \<exists>r. x = Fin r)) \<and>
   NaN \<noteq> Fin 0"
proof -
  have "map (\<lambda>i. arithmetic_mean (trial_durations K c 0 i)) [0..<nat trials] =
          replicate (nat trials) NaN"
    by (simp add: trial_durations_empty arithmetic_mean_empty map_replicate_const)
  moreover have "\<exists>r. arithmetic_mean (trial_durations K c (nat idCount) i) = Fin r"
    if "0 < idCount" for i
    using arithmetic_mean_finite [of "nat idCount" K c i] that by auto
  ultimately show ?thesis
    by (auto simp: runTrials_eq)
qed

text \<open>
  C8 at three trials of no identifier, and at one trial of two calls on a clock that
  stands still.
\<close>

theorem no_identifiers_mean_is_NaN_witness:
  "fst (runTrials (NormalIdGenerator_generateId sample_uuid) sample_clock 0 3 (0, 0)) =
     [NaN, NaN, NaN] \<and>
   fst (runTrials (NormalIdGenerator_generateId sample_uuid) (\<lambda>k. 0) 2 1 (0, 0)) = [Fin 0] \<and>
   (0::int) < 2"
  using no_identifiers_mean_is_NaN [of 0 "NormalIdGenerator_generateId sample_uuid" sample_clock 3 0 0]
        no_identifiers_mean_is_NaN [of 2 "NormalIdGenerator_generateId sample_uuid" "\<lambda>k. 0" 1 0 0]
  by (simp add: runTrials_eq trial_durations_def duration_still mean_still
      upt_conv_Cons numeral_eq_Suc)

text \<open>
  Claim C10 says that with fewer candidate times than baseline times the extra rows are
  built from \<^verbatim>\<open>undefined\<close> and the function does not fail. It fails: the row needs
  \<^verbatim>\<open>cachedTime.toFixed(2)\<close>, and calling a method on \<^verbatim>\<open>undefined\<close> throws.
\<close>

theorem printComparisonTable_short_candidates_throws:
  "printComparisonTable sample_exponent [Fin 1, Fin 2] [Fin 1] = Inl TypeError"
  by (simp add: printComparisonTable_throws)

text \<open>
  Claim C10, amended. When there are at least as many candidate times as baseline
  times, \<open>printComparisonTable\<close> produces exactly one row per baseline time, built from
  the two times at that index, whatever candidate times come after. When there are
  fewer candidate times it throws a \<^verbatim>\<open>TypeError\<close> at the first index without a
  candidate and prints no table.
\<close>

theorem printComparisonTable_rows_or_TypeError:
  "(length normalTimes \<le> length cachedTimes \<longrightarrow>
      printComparisonTable E normalTimes cachedTimes =
        Inr (map (\<lambda>k. table_row E k (normalTimes ! k) (cachedTimes ! k)) [0..<length normalTimes]) \<and>
      length (projr (printComparisonTable E normalTimes cachedTimes)) = length normalTimes) \<and>
   (length cachedTimes < length normalTimes \<longrightarrow>
      printComparisonTable E normalTimes cachedTimes = Inl TypeError)"
  by (simp add: printComparisonTable_rows printComparisonTable_throws)

text \<open>The amended C10 with surplus candidate times, and with a missing one.\<close>

theorem printComparisonTable_rows_or_TypeError_witness:
  "length [Fin 4] \<le> length [Fin 2, Fin 9, Fin 9] \<and>
   printComparisonTable sample_exponent [Fin 4] [Fin 2, Fin 9, Fin 9] =
     Inr [\<lparr>Trial = 1, Normal_ID_Generation = ''4.00'' @ micro_s,
           Cached_ID_Generation = ''2.00'' @ micro_s, Difference = ''2.00x faster''\<rparr>] \<and>
   length [Fin 2] < length [Fin 4, Fin 9] \<and>
   printComparisonTable sample_exponent [Fin 4, Fin 9] [Fin 2] = Inl TypeError"
  using printComparisonTable_rows_or_TypeError [of "[Fin 4]" "[Fin 2, Fin 9, Fin 9]" sample_exponent]
        printComparisonTable_rows_or_TypeError [of "[Fin 4, Fin 9]" "[Fin 2]" sample_exponent]
  by (simp add: table_row_def differenceLabel_def ToNumber_def jsdiv_Fin double_numeral jsgt_def
      mathematical_value_def toFixed_examples)

end
